theory Spec2Isabelle
  imports Main "HOL-Library.Stream" "HOL-Library.Sublist" "HOL-Library.AList"
begin

section \<open>Values, dictionaries and exceptions\<close>

text \<open>
  The program of \<^verbatim>\<open>sd_jwt/operations.py\<close> works on JSON-serialisable Python values.
  A Python \<^verbatim>\<open>dict\<close> keeps its keys distinct and in insertion order; it is an association
  list here. Python's \<^verbatim>\<open>None\<close> is \<open>JNull\<close>. A \<^verbatim>\<open>str\<close> is the list of the bytes of its
  UTF-8 encoding, so that \<^verbatim>\<open>s.encode("utf-8")\<close> is the identity and a \<^verbatim>\<open>str\<close> is ASCII
  exactly when every byte is below 128. Floating-point numbers are left out.
\<close>

datatype json =
    JNull
  | JBool bool
  | JInt int
  | JStr string
  | JList "json list"
  | JObj "(string \<times> json) list"

type_synonym dict = "(string \<times> json) list"

text \<open>
  Every \<^verbatim>\<open>raise\<close> of the source and every exception of the Python runtime that the
  source can meet is a value. \<open>LibError\<close> stands for a failure reported by one of the
  external libraries (\<^verbatim>\<open>jwcrypto\<close>, \<^verbatim>\<open>binascii\<close>). \<open>StructureMismatch\<close> is the failure
  of the structural walk, whose source file is not part of the sources at hand.
\<close>

datatype error =
    ValueError string
  | TypeError
  | AttributeError
  | KeyError string
  | JSONDecodeError
  | UnicodeDecodeError
  | LibError string
  | StructureMismatch

text \<open>The error kinds of the specification, as the exceptions the source raises for them.\<close>

definition InvalidArguments :: error where
  "InvalidArguments =
     ValueError ''When holder binding is to be checked, aud and nonce need to be provided.''"

definition MalformedPresentation :: error where
  "MalformedPresentation = ValueError ''Invalid number of parts in the combined presentation''"

definition InvalidIssuer :: error where
  "InvalidIssuer = ValueError ''Invalid issuer''"

definition InvalidAudience :: error where
  "InvalidAudience = ValueError ''Invalid audience''"

definition InvalidNonce :: error where
  "InvalidNonce = ValueError ''Invalid nonce''"

definition HolderKeyMismatch :: error where
  "HolderKeyMismatch = ValueError ''sub_jwk is not matching with HOLDER Public Key.''"

definition CommitmentMismatch :: error where
  "CommitmentMismatch =
     ValueError ''Claim release value does not match the claim value in the SD-JWT''"

definition MissingCommitments_sd_jwt :: error where
  "MissingCommitments_sd_jwt = ValueError ''No selective disclosure claims in SD-JWT''"

definition MissingCommitments_release :: error where
  "MissingCommitments_release =
     ValueError ''No selective disclosure claims in SD-JWT-Release''"

definition NotAList :: error where
  "NotAList = ValueError ''Claim release value is not a list''"

definition NotLength2 :: error where
  "NotLength2 = ValueError ''Claim release value is not of length 2''"

text \<open>
  \<open>MalformedDisclosure\<close> covers the three ways in which a disclosed text is not a
  2-element array: it is no JSON text at all (\<^verbatim>\<open>json.JSONDecodeError\<close>, a subclass of
  \<^verbatim>\<open>ValueError\<close>), it is JSON but no list, or it is a list of another length.
\<close>

definition MalformedDisclosure :: "error \<Rightarrow> bool" where
  "MalformedDisclosure e = (e = JSONDecodeError \<or> e = NotAList \<or> e = NotLength2)"

subsection \<open>Python operators on values\<close>

text \<open>Truth value of a Python object in a condition.\<close>

fun truthy :: "json \<Rightarrow> bool" where
  "truthy JNull = False"
| "truthy (JBool b) = b"
| "truthy (JInt i) = (i \<noteq> 0)"
| "truthy (JStr s) = (s \<noteq> [])"
| "truthy (JList xs) = (xs \<noteq> [])"
| "truthy (JObj d) = (d \<noteq> [])"

text \<open>\<^verbatim>\<open>x or d\<close> for an optional integer argument: \<^verbatim>\<open>None\<close> and \<^verbatim>\<open>0\<close> are both false.\<close>

definition or_int :: "int option \<Rightarrow> int \<Rightarrow> int" where
  "or_int x d = (case x of None \<Rightarrow> d | Some i \<Rightarrow> if i \<noteq> 0 then i else d)"

text \<open>\<^verbatim>\<open>not x\<close> for an optional string argument: \<^verbatim>\<open>None\<close> and \<^verbatim>\<open>""\<close> are both false.\<close>

definition not_str :: "string option \<Rightarrow> bool" where
  "not_str x = (case x of None \<Rightarrow> True | Some s \<Rightarrow> s = [])"

text \<open>\<^verbatim>\<open>v != x\<close> where \<^verbatim>\<open>x\<close> is an optional string argument (\<^verbatim>\<open>None\<close> when absent).\<close>

definition ne_str :: "json \<Rightarrow> string option \<Rightarrow> bool" where
  "ne_str v x = (case x of None \<Rightarrow> v \<noteq> JNull | Some s \<Rightarrow> v \<noteq> JStr s)"

text \<open>
  \<^verbatim>\<open>key in v\<close> and \<^verbatim>\<open>v[key]\<close> for a string key: only a \<^verbatim>\<open>dict\<close> can be subscripted by a
  string; membership is also defined on lists (by equality) and strings (substring), and
  raises \<^verbatim>\<open>TypeError\<close> on numbers, booleans and \<^verbatim>\<open>None\<close>.
\<close>

definition py_contains :: "string \<Rightarrow> json \<Rightarrow> error + bool" where
  "py_contains key v =
     (case v of
        JObj d \<Rightarrow> Inr (map_of d key \<noteq> None)
      | JList xs \<Rightarrow> Inr (List.member xs (JStr key))
      | JStr s \<Rightarrow> Inr (sublist key s)
      | _ \<Rightarrow> Inl TypeError)"

definition py_getitem :: "json \<Rightarrow> string \<Rightarrow> error + json" where
  "py_getitem v key =
     (case v of
        JObj d \<Rightarrow> (case map_of d key of None \<Rightarrow> Inl (KeyError key) | Some x \<Rightarrow> Inr x)
      | _ \<Rightarrow> Inl TypeError)"

text \<open>
  A dictionary display \<^verbatim>\<open>{k1: v1, ..., kn: vn}\<close>: the entries are stored from left to
  right, a repeated key keeps its first position and takes the last value.
\<close>

definition dict_of :: "(string \<times> json) list \<Rightarrow> dict" where
  "dict_of kvs = foldl (\<lambda>d (k, v). AList.update k v d) [] kvs"

subsection \<open>Strings\<close>

definition is_ascii :: "string \<Rightarrow> bool" where
  "is_ascii s = list_all (\<lambda>c. (of_char c :: nat) < 128) s"

text \<open>\<^verbatim>\<open>b.decode("ascii")\<close> raises \<^verbatim>\<open>UnicodeDecodeError\<close> on a byte above 127.\<close>

definition decode_ascii :: "string \<Rightarrow> error + string" where
  "decode_ascii b = (if is_ascii b then Inr b else Inl UnicodeDecodeError)"

text \<open>\<^verbatim>\<open>s.strip("=")\<close> removes the equals signs at both ends.\<close>

definition strip_eq :: "string \<Rightarrow> string" where
  "strip_eq s = rev (dropWhile (\<lambda>c. c = CHR ''='') (rev (dropWhile (\<lambda>c. c = CHR ''='') s)))"

text \<open>\<^verbatim>\<open>s.split(".")\<close> and \<^verbatim>\<open>".".join(parts)\<close>.\<close>

fun split_dot :: "string \<Rightarrow> string list" where
  "split_dot [] = [[]]"
| "split_dot (c # cs) =
     (if c = CHR ''.'' then [] # split_dot cs
      else (case split_dot cs of [] \<Rightarrow> [[c]] | w # ws \<Rightarrow> (c # w) # ws))"

fun join_dot :: "string list \<Rightarrow> string" where
  "join_dot [] = []"
| "join_dot [w] = w"
| "join_dot (w # ws) = w @ CHR ''.'' # join_dot ws"

text \<open>
  \<^verbatim>\<open>secrets.compare_digest(a, b)\<close>: on two \<^verbatim>\<open>str\<close> objects it requires both to be ASCII
  and then tells whether they are equal; on a \<^verbatim>\<open>str\<close> and anything that is
  not a \<^verbatim>\<open>str\<close> it raises \<^verbatim>\<open>TypeError\<close>. The time it takes is not modelled.
\<close>

definition compare_digest :: "json \<Rightarrow> json \<Rightarrow> error + bool" where
  "compare_digest a b =
     (case (a, b) of
        (JStr x, JStr y) \<Rightarrow> if is_ascii x \<and> is_ascii y then Inr (x = y) else Inl TypeError
      | _ \<Rightarrow> Inl TypeError)"

section \<open>External collaborators\<close>

text \<open>
  The libraries the source calls are parameters of the model: the hash function, the
  base64 codec, the JSON codec, the JWS signer and verifier, and the JWK key handles
  (\<^typ>\<open>'k\<close> is the type of keys, \<^typ>\<open>'w\<close> the type of a parsed JWS object). A call that can
  raise returns a sum; \<^verbatim>\<open>json.loads\<close>, which raises nothing but \<^verbatim>\<open>JSONDecodeError\<close>,
  returns an option. \<open>jws_verify\<close> returns the JWS object after verification, because
  \<^verbatim>\<open>JWS.verify\<close> updates the object that \<^verbatim>\<open>.payload\<close> is read from afterwards. The two
  constants of \<^verbatim>\<open>sd_jwt/demo_settings.py\<close>, which is not among the sources, are
  parameters as well.
\<close>

record ('k, 'w) lib =
  sha256 :: "string \<Rightarrow> string"
  urlsafe_b64encode :: "string \<Rightarrow> string"
  urlsafe_b64decode :: "string \<Rightarrow> error + string"
  dumps :: "json \<Rightarrow> string"
  dumps_indent :: "nat \<Rightarrow> json \<Rightarrow> string"
  loads :: "string \<Rightarrow> json option"
  jws_sign :: "string \<Rightarrow> 'k \<Rightarrow> string \<Rightarrow> string \<Rightarrow> error + string"
  jws_deserialize :: "string \<Rightarrow> error + 'w"
  jws_verify :: "'w \<Rightarrow> 'k \<Rightarrow> string \<Rightarrow> error + 'w"
  jws_payload :: "'w \<Rightarrow> error + string"
  jwk_export_public :: "'k \<Rightarrow> error + json"
  jwk_from_json :: "string \<Rightarrow> error + 'k"
  jwk_eq :: "'k \<Rightarrow> 'k \<Rightarrow> bool"
  DEFAULT_SIGNIGN_ALG :: string
  SD_CLAIMS_KEY :: string

definition DEFAULT_EXP_MINS :: int where
  "DEFAULT_EXP_MINS = 15"

section \<open>The structural walk\<close>

text \<open>
  Modelled from the spec: \<^verbatim>\<open>sd_jwt.walk.by_structure\<close> (\<^verbatim>\<open>sd_jwt/walk.py\<close>) is imported by
  \<^verbatim>\<open>operations.py\<close> and is not among the sources. Section 4.1 of the specification: for
  each key \<open>k\<close> of \<open>data\<close>, if \<open>data[k]\<close> is a nested tree the result at \<open>k\<close> is the
  walk of \<open>structure.get(k, {})\<close> and \<open>data[k]\<close>; otherwise it is \<open>fn(k, data[k], s)\<close>
  where \<open>s\<close> is the structure leaf at \<open>k\<close> if present, else absent. The walk fails with
  \<open>StructureMismatch\<close> when a leaf of \<open>data\<close> meets a nested tree of \<open>structure\<close>
  or the other way round. The leaf function may read and update a state (the salt
  generator does), which the walk threads through the leaves from first to last key.
\<close>

type_synonym 's leaf_fn = "string \<Rightarrow> json \<Rightarrow> json option \<Rightarrow> 's \<Rightarrow> error + (json \<times> 's)"

text \<open>
  Modelled from the spec: the part of the structure that the walk of
  \<^verbatim>\<open>sd_jwt/walk.py\<close> uses at a key where the data has a nested tree
  (\<open>structure.get(k, {})\<close>, which must be a tree), and at a key where the data has a
  leaf (the structure leaf if present, which must not be a tree).
\<close>

definition nested_structure :: "dict \<Rightarrow> string \<Rightarrow> error + dict" where
  "nested_structure structure k =
     (case map_of structure k of
        None \<Rightarrow> Inr []
      | Some (JObj st) \<Rightarrow> Inr st
      | Some _ \<Rightarrow> Inl StructureMismatch)"

definition leaf_structure :: "dict \<Rightarrow> string \<Rightarrow> error + json option" where
  "leaf_structure structure k =
     (case map_of structure k of
        Some (JObj st) \<Rightarrow> Inl StructureMismatch
      | a \<Rightarrow> Inr a)"

text \<open>
  Modelled from the spec: the walk of \<^verbatim>\<open>sd_jwt/walk.py\<close> over the entries of the
  data, in their order.
\<close>

fun walk :: "dict \<Rightarrow> dict \<Rightarrow> 's leaf_fn \<Rightarrow> 's \<Rightarrow> error + (dict \<times> 's)" where
  "walk structure [] fn s = Inr ([], s)"
| "walk structure ((k, JObj d) # rest) fn s =
     (case nested_structure structure k of
        Inl e \<Rightarrow> Inl e
      | Inr st \<Rightarrow>
          (case walk st d fn s of
             Inl e \<Rightarrow> Inl e
           | Inr (r, s') \<Rightarrow>
               (case walk structure rest fn s' of
                  Inl e \<Rightarrow> Inl e
                | Inr (out, s'') \<Rightarrow> Inr ((k, JObj r) # out, s''))))"
| "walk structure ((k, v) # rest) fn s =
     (case leaf_structure structure k of
        Inl e \<Rightarrow> Inl e
      | Inr a \<Rightarrow>
          (case fn k v a s of
             Inl e \<Rightarrow> Inl e
           | Inr (r, s') \<Rightarrow>
               (case walk structure rest fn s' of
                  Inl e \<Rightarrow> Inl e
                | Inr (out, s'') \<Rightarrow> Inr ((k, r) # out, s''))))"

text \<open>
  Modelled from the spec: the entry point of the walk on two Python values. Both must be
  trees (dictionaries); anything else is not congruent.
\<close>

definition walk_by_structure :: "json \<Rightarrow> json \<Rightarrow> 's leaf_fn \<Rightarrow> 's \<Rightarrow> error + (json \<times> 's)" where
  "walk_by_structure structure obj fn s =
     (case (structure, obj) of
        (JObj st, JObj d) \<Rightarrow>
          (case walk st d fn s of Inl e \<Rightarrow> Inl e | Inr (out, s') \<Rightarrow> Inr (JObj out, s'))
      | _ \<Rightarrow> Inl StructureMismatch)"

text \<open>
  Modelled from the spec: a leaf function of the source whose third parameter has no
  default (\<^verbatim>\<open>lambda _, __, raw: raw\<close>, \<^verbatim>\<open>_check_claim\<close>, \<^verbatim>\<open>_create_sd_claim_entry\<close>,
  \<^verbatim>\<open>_create_svc_entry\<close>) needs the structure leaf. When the walk has none to pass, the call
  fails; sections 4.1 and 4.4 name that failure \<open>StructureMismatch\<close>. Such a function
  has no state.
\<close>

definition required3 :: "(string \<Rightarrow> json \<Rightarrow> json \<Rightarrow> error + json) \<Rightarrow> unit leaf_fn" where
  "required3 f k v a s =
     (case a of
        None \<Rightarrow> Inl StructureMismatch
      | Some x \<Rightarrow> (case f k v x of Inl e \<Rightarrow> Inl e | Inr r \<Rightarrow> Inr (r, s)))"

section \<open>The operations of \<^verbatim>\<open>operations.py\<close>\<close>

text \<open>
  Names with a leading underscore in the source (\<^verbatim>\<open>_check_claim\<close>, \<^verbatim>\<open>_verify_sd_jwt\<close>, ...)
  lose it here. The random number generator of \<^verbatim>\<open>random.getrandbits(8)\<close> is the stream
  of the bytes it will return; the clock of \<^verbatim>\<open>datetime.utcnow()\<close> is the integer \<open>now\<close>.
\<close>

text \<open>The idiom \<^verbatim>\<open>urlsafe_b64encode(b).decode("ascii").strip("=")\<close>.\<close>

definition b64_unpadded :: "('k, 'w) lib \<Rightarrow> string \<Rightarrow> error + string" where
  "b64_unpadded L b =
     (case decode_ascii (urlsafe_b64encode L b) of
        Inl e \<Rightarrow> Inl e
      | Inr t \<Rightarrow> Inr (strip_eq t))"

definition generate_salt :: "('k, 'w) lib \<Rightarrow> char stream \<Rightarrow> error + (string \<times> char stream)" where
  "generate_salt L rng =
     (case b64_unpadded L (stake 16 rng) of
        Inl e \<Rightarrow> Inl e
      | Inr salt \<Rightarrow> Inr (salt, sdrop 16 rng))"

text \<open>
  The sources of random bytes of a Python process, each as the stream of the bytes it
  will return: the generator of the \<^verbatim>\<open>random\<close> module (a Mersenne Twister, the
  general-purpose generator that \<^verbatim>\<open>random.getrandbits\<close> reads) and the generator of the
  operating system (\<^verbatim>\<open>os.urandom\<close>, which the \<^verbatim>\<open>secrets\<close> module and
  \<^verbatim>\<open>random.SystemRandom\<close> read). \<^verbatim>\<open>generate_salt\<close> calls \<^verbatim>\<open>random.getrandbits\<close> and
  nothing else that is random: in a process it reads and advances the first
  generator and leaves the second alone.
\<close>

record generators =
  random_module :: "char stream"
  os_urandom :: "char stream"

definition generate_salt_from ::
  "('k, 'w) lib \<Rightarrow> generators \<Rightarrow> error + (string \<times> generators)" where
  "generate_salt_from L G =
     (case generate_salt L (random_module G) of
        Inl e \<Rightarrow> Inl e
      | Inr (salt, rng') \<Rightarrow> Inr (salt, G\<lparr>random_module := rng'\<rparr>))"

definition hash_raw :: "('k, 'w) lib \<Rightarrow> string \<Rightarrow> error + string" where
  "hash_raw L raw = b64_unpadded L (sha256 L raw)"

definition hash_claim :: "('k, 'w) lib \<Rightarrow> json \<Rightarrow> json \<Rightarrow> bool \<Rightarrow> error + string" where
  "hash_claim L salt val return_raw =
     (let raw = dumps L (JList [salt, val])
      in if return_raw then Inr raw else hash_raw L raw)"

definition create_sd_claim_entry :: "('k, 'w) lib \<Rightarrow> string \<Rightarrow> json \<Rightarrow> json \<Rightarrow> error + json" where
  "create_sd_claim_entry L key val salt =
     (case hash_claim L salt val False of Inl e \<Rightarrow> Inl e | Inr h \<Rightarrow> Inr (JStr h))"

definition create_svc_entry :: "('k, 'w) lib \<Rightarrow> string \<Rightarrow> json \<Rightarrow> json \<Rightarrow> error + json" where
  "create_svc_entry L key val salt =
     (case hash_claim L salt val True of Inl e \<Rightarrow> Inl e | Inr raw \<Rightarrow> Inr (JStr raw))"

text \<open>\<^verbatim>\<open>lambda _, __, ___=None: generate_salt()\<close>\<close>

definition salt_leaf :: "('k, 'w) lib \<Rightarrow> (char stream) leaf_fn" where
  "salt_leaf L k v a rng =
     (case generate_salt L rng of
        Inl e \<Rightarrow> Inl e
      | Inr (salt, rng') \<Rightarrow> Inr (JStr salt, rng'))"

text \<open>
  \<^verbatim>\<open>JWS(payload=p)\<close>, \<^verbatim>\<open>add_signature(key, alg=ALG, protected=dumps({"alg": ALG}))\<close> and
  \<^verbatim>\<open>serialize(compact=True)\<close>.
\<close>

definition sign_compact :: "('k, 'w) lib \<Rightarrow> json \<Rightarrow> 'k \<Rightarrow> error + string" where
  "sign_compact L payload key =
     jws_sign L (dumps L payload) key (DEFAULT_SIGNIGN_ALG L)
       (dumps L (JObj (dict_of [(''alg'', JStr (DEFAULT_SIGNIGN_ALG L))])))"

text \<open>
  The result is the 4-tuple of the source together with the generator after the salts
  have been drawn.
\<close>

definition create_sd_jwt_and_svc ::
  "('k, 'w) lib \<Rightarrow> int \<Rightarrow> char stream \<Rightarrow> json \<Rightarrow> string \<Rightarrow> 'k \<Rightarrow> 'k \<Rightarrow> json \<Rightarrow>
   int option \<Rightarrow> int option \<Rightarrow> error + ((json \<times> string \<times> json \<times> string) \<times> char stream)" where
  "create_sd_jwt_and_svc L now rng user_claims issuer issuer_key holder_key claim_structure iat exp =
     (case walk_by_structure claim_structure user_claims (salt_leaf L) rng of
        Inl e \<Rightarrow> Inl e
      | Inr (salts, rng') \<Rightarrow>
     let iat' = or_int iat now;
         exp' = or_int exp (iat' + DEFAULT_EXP_MINS * 60)
     in
     (case jwk_export_public L holder_key of
        Inl e \<Rightarrow> Inl e
      | Inr sub_jwk \<Rightarrow>
     (case walk_by_structure salts user_claims (required3 (create_sd_claim_entry L)) () of
        Inl e \<Rightarrow> Inl e
      | Inr (sd_claims, u) \<Rightarrow>
     let sd_jwt_payload = JObj (dict_of
           [(''iss'', JStr issuer),
            (''sub_jwk'', sub_jwk),
            (''iat'', JInt iat'),
            (''exp'', JInt exp'),
            (SD_CLAIMS_KEY L, sd_claims)])
     in
     (case sign_compact L sd_jwt_payload issuer_key of
        Inl e \<Rightarrow> Inl e
      | Inr serialized_sd_jwt \<Rightarrow>
     (case walk_by_structure salts user_claims (required3 (create_svc_entry L)) () of
        Inl e \<Rightarrow> Inl e
      | Inr (svc_claims, u') \<Rightarrow>
     let svc_payload = JObj (dict_of [(SD_CLAIMS_KEY L, svc_claims)])
     in
     (case b64_unpadded L (dumps_indent L 4 svc_payload) of
        Inl e \<Rightarrow> Inl e
      | Inr serialized_svc \<Rightarrow>
          Inr ((sd_jwt_payload, serialized_sd_jwt, svc_payload, serialized_svc), rng')))))))"

definition create_release_jwt ::
  "('k, 'w) lib \<Rightarrow> string \<Rightarrow> string \<Rightarrow> json \<Rightarrow> string \<Rightarrow> 'k \<Rightarrow> error + (json \<times> string)" where
  "create_release_jwt L nonce aud disclosed_claims serialized_svc holder_key =
     (case urlsafe_b64decode L (serialized_svc @ ''=='') of
        Inl e \<Rightarrow> Inl e
      | Inr b \<Rightarrow>
     (case loads L b of
        None \<Rightarrow> Inl JSONDecodeError
      | Some svc \<Rightarrow>
     (case py_getitem svc (SD_CLAIMS_KEY L) of
        Inl e \<Rightarrow> Inl e
      | Inr hash_raw_values \<Rightarrow>
     (case walk_by_structure hash_raw_values disclosed_claims
             (required3 (\<lambda>k v raw. Inr raw)) () of
        Inl e \<Rightarrow> Inl e
      | Inr (released, u) \<Rightarrow>
     let sd_jwt_release_payload = JObj (dict_of
           [(''nonce'', JStr nonce),
            (''aud'', JStr aud),
            (SD_CLAIMS_KEY L, released)])
     in
     (case sign_compact L sd_jwt_release_payload holder_key of
        Inl e \<Rightarrow> Inl e
      | Inr serialized_sd_jwt_release \<Rightarrow>
          Inr (sd_jwt_release_payload, serialized_sd_jwt_release))))))"

definition verify_sd_jwt ::
  "('k, 'w) lib \<Rightarrow> string \<Rightarrow> 'k \<Rightarrow> string \<Rightarrow> error + (json \<times> json)" where
  "verify_sd_jwt L sd_jwt issuer_public_key expected_issuer =
     (case jws_deserialize L sd_jwt of
        Inl e \<Rightarrow> Inl e
      | Inr parsed \<Rightarrow>
     (case jws_verify L parsed issuer_public_key (DEFAULT_SIGNIGN_ALG L) of
        Inl e \<Rightarrow> Inl e
      | Inr verified \<Rightarrow>
     (case jws_payload L verified of
        Inl e \<Rightarrow> Inl e
      | Inr payload_text \<Rightarrow>
     (case loads L payload_text of
        None \<Rightarrow> Inl JSONDecodeError
      | Some sd_jwt_payload \<Rightarrow>
     (case py_getitem sd_jwt_payload ''iss'' of
        Inl e \<Rightarrow> Inl e
      | Inr iss \<Rightarrow>
     if iss \<noteq> JStr expected_issuer then Inl InvalidIssuer
     else
     (case py_contains (SD_CLAIMS_KEY L) sd_jwt_payload of
        Inl e \<Rightarrow> Inl e
      | Inr has_claims \<Rightarrow>
     if \<not> has_claims then Inl MissingCommitments_sd_jwt
     else
     (case py_contains ''sub_jwk'' sd_jwt_payload of
        Inl e \<Rightarrow> Inl e
      | Inr has_key \<Rightarrow>
     (case (if has_key then py_getitem sd_jwt_payload ''sub_jwk'' else Inr JNull) of
        Inl e \<Rightarrow> Inl e
      | Inr holder_public_key_payload \<Rightarrow>
     (case py_getitem sd_jwt_payload (SD_CLAIMS_KEY L) of
        Inl e \<Rightarrow> Inl e
      | Inr sd_claims \<Rightarrow> Inr (sd_claims, holder_public_key_payload))))))))))"

text \<open>
  The three conditional blocks of \<^verbatim>\<open>_verify_sd_jwt_release\<close>. A key handle that is
  supplied counts as true in a condition; \<^verbatim>\<open>None\<close> (no key) counts as false.
\<close>

definition check_sub_jwk :: "('k, 'w) lib \<Rightarrow> 'k option \<Rightarrow> json \<Rightarrow> error + unit" where
  "check_sub_jwk L holder_public_key holder_public_key_payload =
     (case holder_public_key of
        None \<Rightarrow> Inr ()
      | Some hk \<Rightarrow>
          if truthy holder_public_key_payload then
            (case jwk_from_json L (dumps L holder_public_key_payload) of
               Inl e \<Rightarrow> Inl e
             | Inr pubkey \<Rightarrow>
                 if \<not> jwk_eq L hk pubkey then Inl HolderKeyMismatch else Inr ())
          else Inr ())"

definition check_release_signature :: "('k, 'w) lib \<Rightarrow> 'w \<Rightarrow> 'k option \<Rightarrow> error + 'w" where
  "check_release_signature L parsed holder_public_key =
     (case holder_public_key of
        None \<Rightarrow> Inr parsed
      | Some hk \<Rightarrow> jws_verify L parsed hk (DEFAULT_SIGNIGN_ALG L))"

definition check_aud_nonce ::
  "'k option \<Rightarrow> json \<Rightarrow> string option \<Rightarrow> string option \<Rightarrow> error + unit" where
  "check_aud_nonce holder_public_key sd_jwt_release_payload expected_aud expected_nonce =
     (case holder_public_key of
        None \<Rightarrow> Inr ()
      | Some hk \<Rightarrow>
          (case py_getitem sd_jwt_release_payload ''aud'' of
             Inl e \<Rightarrow> Inl e
           | Inr aud \<Rightarrow>
          if ne_str aud expected_aud then Inl InvalidAudience
          else
          (case py_getitem sd_jwt_release_payload ''nonce'' of
             Inl e \<Rightarrow> Inl e
           | Inr nonce \<Rightarrow>
          if ne_str nonce expected_nonce then Inl InvalidNonce else Inr ())))"

definition verify_sd_jwt_release ::
  "('k, 'w) lib \<Rightarrow> string \<Rightarrow> 'k option \<Rightarrow> string option \<Rightarrow> string option \<Rightarrow> json \<Rightarrow>
   error + json" where
  "verify_sd_jwt_release L sd_jwt_release holder_public_key expected_aud expected_nonce
       holder_public_key_payload =
     (case jws_deserialize L sd_jwt_release of
        Inl e \<Rightarrow> Inl e
      | Inr parsed \<Rightarrow>
     (case check_sub_jwk L holder_public_key holder_public_key_payload of
        Inl e \<Rightarrow> Inl e
      | Inr u \<Rightarrow>
     (case check_release_signature L parsed holder_public_key of
        Inl e \<Rightarrow> Inl e
      | Inr parsed' \<Rightarrow>
     (case jws_payload L parsed' of
        Inl e \<Rightarrow> Inl e
      | Inr payload_text \<Rightarrow>
     (case loads L payload_text of
        None \<Rightarrow> Inl JSONDecodeError
      | Some sd_jwt_release_payload \<Rightarrow>
     (case check_aud_nonce holder_public_key sd_jwt_release_payload expected_aud expected_nonce of
        Inl e \<Rightarrow> Inl e
      | Inr u' \<Rightarrow>
     (case py_contains (SD_CLAIMS_KEY L) sd_jwt_release_payload of
        Inl e \<Rightarrow> Inl e
      | Inr has_claims \<Rightarrow>
     if \<not> has_claims then Inl MissingCommitments_release
     else py_getitem sd_jwt_release_payload (SD_CLAIMS_KEY L))))))))"

definition check_claim :: "('k, 'w) lib \<Rightarrow> string \<Rightarrow> json \<Rightarrow> json \<Rightarrow> error + json" where
  "check_claim L claim_name released_value sd_jwt_claim_value =
     (case released_value of
        JStr released_text \<Rightarrow>
          (case hash_raw L released_text of
             Inl e \<Rightarrow> Inl e
           | Inr hashed_release_value \<Rightarrow>
          (case compare_digest (JStr hashed_release_value) sd_jwt_claim_value of
             Inl e \<Rightarrow> Inl e
           | Inr same \<Rightarrow>
          if \<not> same then Inl CommitmentMismatch
          else
          (case loads L released_text of
             None \<Rightarrow> Inl JSONDecodeError
           | Some decoded \<Rightarrow>
          (case decoded of
             JList xs \<Rightarrow> if length xs \<noteq> 2 then Inl NotLength2 else Inr (xs ! 1)
           | _ \<Rightarrow> Inl NotAList))))
      | _ \<Rightarrow> Inl AttributeError)"

definition verify ::
  "('k, 'w) lib \<Rightarrow> string \<Rightarrow> 'k \<Rightarrow> string \<Rightarrow> 'k option \<Rightarrow> string option \<Rightarrow> string option \<Rightarrow>
   error + json" where
  "verify L combined_presentation issuer_public_key expected_issuer holder_public_key
       expected_aud expected_nonce =
     (if holder_public_key \<noteq> None \<and> (not_str expected_aud \<or> not_str expected_nonce)
      then Inl InvalidArguments
      else
      let parts = split_dot combined_presentation
      in
      if length parts \<noteq> 6 then Inl MalformedPresentation
      else
      (case verify_sd_jwt L (join_dot (take 3 parts)) issuer_public_key expected_issuer of
         Inl e \<Rightarrow> Inl e
       | Inr (sd_jwt_claims, holder_public_key_payload) \<Rightarrow>
      (case verify_sd_jwt_release L (join_dot (drop 3 parts)) holder_public_key
              expected_aud expected_nonce holder_public_key_payload of
         Inl e \<Rightarrow> Inl e
       | Inr sd_jwt_release_claims \<Rightarrow>
      (case walk_by_structure sd_jwt_claims sd_jwt_release_claims
              (required3 (check_claim L)) () of
         Inl e \<Rightarrow> Inl e
       | Inr (disclosed, u) \<Rightarrow> Inr disclosed))))"

section \<open>A concrete instance of the collaborators\<close>

text \<open>
  A small instance of the library record, used to run the operations on concrete
  inputs. Its JSON codec writes a value as the instructions of a stack machine and
  reads a text by running them; its base64 codec writes a byte as two runs of letters;
  its signer appends the name of the signing key.
\<close>

fun toy_str :: "string \<Rightarrow> string" where
  "toy_str [] = []"
| "toy_str (c # cs) = CHR ''c'' # c # toy_str cs"

fun toy_dumps :: "json \<Rightarrow> string"
  and toy_dumps_list :: "json list \<Rightarrow> string"
  and toy_dumps_dict :: "(string \<times> json) list \<Rightarrow> string" where
  "toy_dumps JNull = ''n''"
| "toy_dumps (JBool b) = (if b then ''t'' else ''f'')"
| "toy_dumps (JInt i) =
     (if 0 \<le> i then CHR ''0'' # replicate (nat i) CHR ''+''
      else CHR ''0'' # replicate (nat (- i)) CHR ''-'')"
| "toy_dumps (JStr s) = CHR ''e'' # toy_str s"
| "toy_dumps (JList xs) = CHR ''l'' # toy_dumps_list xs"
| "toy_dumps (JObj d) = CHR ''o'' # toy_dumps_dict d"
| "toy_dumps_list [] = []"
| "toy_dumps_list (x # xs) = toy_dumps x @ CHR ''a'' # toy_dumps_list xs"
| "toy_dumps_dict [] = []"
| "toy_dumps_dict ((k, v) # d) = CHR ''e'' # toy_str k @ toy_dumps v @ CHR ''p'' # toy_dumps_dict d"

type_synonym toy_state = "(json list \<times> bool) option"

fun toy_step :: "toy_state \<Rightarrow> char \<Rightarrow> toy_state" where
  "toy_step None c = None"
| "toy_step (Some (stk, True)) c =
     (case stk of JStr s # r \<Rightarrow> Some (JStr (s @ [c]) # r, False) | _ \<Rightarrow> None)"
| "toy_step (Some (stk, False)) c =
     (if c = CHR ''n'' then Some (JNull # stk, False)
      else if c = CHR ''t'' then Some (JBool True # stk, False)
      else if c = CHR ''f'' then Some (JBool False # stk, False)
      else if c = CHR ''0'' then Some (JInt 0 # stk, False)
      else if c = CHR ''+'' then
        (case stk of JInt i # r \<Rightarrow> Some (JInt (i + 1) # r, False) | _ \<Rightarrow> None)
      else if c = CHR ''-'' then
        (case stk of JInt i # r \<Rightarrow> Some (JInt (i - 1) # r, False) | _ \<Rightarrow> None)
      else if c = CHR ''e'' then Some (JStr [] # stk, False)
      else if c = CHR ''c'' then Some (stk, True)
      else if c = CHR ''l'' then Some (JList [] # stk, False)
      else if c = CHR ''a'' then
        (case stk of x # JList xs # r \<Rightarrow> Some (JList (xs @ [x]) # r, False) | _ \<Rightarrow> None)
      else if c = CHR ''o'' then Some (JObj [] # stk, False)
      else if c = CHR ''p'' then
        (case stk of v # JStr k # JObj d # r \<Rightarrow> Some (JObj (d @ [(k, v)]) # r, False)
         | _ \<Rightarrow> None)
      else None)"

definition toy_run :: "string \<Rightarrow> toy_state \<Rightarrow> toy_state" where
  "toy_run t st = foldl toy_step st t"

definition toy_loads :: "string \<Rightarrow> json option" where
  "toy_loads t =
     (case toy_run t (Some ([], False)) of
        Some ([v], False) \<Rightarrow> Some v
      | _ \<Rightarrow> None)"

text \<open>A byte as its low and high half in unary; an equals sign is skipped when decoding.\<close>

fun toy_b64encode :: "string \<Rightarrow> string" where
  "toy_b64encode [] = []"
| "toy_b64encode (c # cs) =
     replicate (of_char c mod 16) CHR ''a'' @ CHR ''b'' #
     replicate (of_char c div 16) CHR ''a'' @ CHR ''c'' # toy_b64encode cs"

fun toy_b64step :: "(nat \<times> nat \<times> string) option \<Rightarrow> char \<Rightarrow> (nat \<times> nat \<times> string) option" where
  "toy_b64step None c = None"
| "toy_b64step (Some (n, lo, out)) c =
     (if c = CHR ''a'' then Some (Suc n, lo, out)
      else if c = CHR ''b'' then Some (0, n, out)
      else if c = CHR ''c'' then Some (0, 0, out @ [char_of (lo + 16 * n)])
      else if c = CHR ''='' then Some (n, lo, out)
      else None)"

definition toy_b64decode :: "string \<Rightarrow> error + string" where
  "toy_b64decode t =
     (case foldl toy_b64step (Some (0, 0, [])) t of
        Some (n, lo, out) \<Rightarrow> Inr out
      | None \<Rightarrow> Inl (LibError ''binascii.Error''))"

text \<open>A full stop inside a segment of a compact token is escaped.\<close>

fun armor :: "string \<Rightarrow> string" where
  "armor [] = []"
| "armor (c # cs) =
     (if c = CHR ''.'' then CHR ''~'' # CHR ''d'' # armor cs
      else if c = CHR ''~'' then CHR ''~'' # CHR ''t'' # armor cs
      else c # armor cs)"

fun unarmor :: "string \<Rightarrow> string" where
  "unarmor (c # d # cs) =
     (if c = CHR ''~'' then (if d = CHR ''d'' then CHR ''.'' else CHR ''~'') # unarmor cs
      else c # unarmor (d # cs))"
| "unarmor cs = cs"

datatype toy_key = Private string | Public string

fun key_name :: "toy_key \<Rightarrow> string" where
  "key_name (Private n) = n"
| "key_name (Public n) = n"

text \<open>
  A parsed token remembers whether its signature has been verified: \<^verbatim>\<open>jwcrypto\<close> sets
  the flag in \<^verbatim>\<open>JWS.verify\<close>, and \<^verbatim>\<open>JWS.payload\<close> raises \<^verbatim>\<open>InvalidJWSOperation\<close>
  (\<^verbatim>\<open>Payload not verified\<close>) while it is not set.
\<close>

record toy_jws =
  header :: string
  body :: string
  signer :: string
  valid :: bool

definition toy_sign :: "string \<Rightarrow> toy_key \<Rightarrow> string \<Rightarrow> string \<Rightarrow> error + string" where
  "toy_sign payload key alg protected =
     (case key of
        Private n \<Rightarrow> Inr (armor protected @ CHR ''.'' # armor payload @ CHR ''.'' # armor n)
      | Public n \<Rightarrow> Inl (LibError ''InvalidJWKType''))"

definition toy_deserialize :: "string \<Rightarrow> error + toy_jws" where
  "toy_deserialize t =
     (case split_dot t of
        [h, p, s] \<Rightarrow>
          Inr \<lparr>header = unarmor h, body = unarmor p, signer = unarmor s, valid = False\<rparr>
      | _ \<Rightarrow> Inl (LibError ''InvalidJWSObject''))"

definition toy_verify :: "toy_jws \<Rightarrow> toy_key \<Rightarrow> string \<Rightarrow> error + toy_jws" where
  "toy_verify w key alg =
     (if signer w = key_name key then Inr (w\<lparr>valid := True\<rparr>)
      else Inl (LibError ''InvalidJWSSignature''))"

definition toy_payload :: "toy_jws \<Rightarrow> error + string" where
  "toy_payload w =
     (if valid w then Inr (body w) else Inl (LibError ''InvalidJWSOperation''))"

definition toy_export_public :: "toy_key \<Rightarrow> error + json" where
  "toy_export_public key = Inr (JObj [(''kty'', JStr ''toy''), (''n'', JStr (key_name key))])"

definition toy_from_json :: "string \<Rightarrow> error + toy_key" where
  "toy_from_json t =
     (case toy_loads t of
        Some (JObj d) \<Rightarrow>
          (case map_of d ''n'' of
             Some (JStr n) \<Rightarrow> Inr (Public n)
           | _ \<Rightarrow> Inl (LibError ''InvalidJWKValue''))
      | _ \<Rightarrow> Inl (LibError ''InvalidJWKValue''))"

definition toy_lib :: "(toy_key, toy_jws) lib" where
  "toy_lib = \<lparr>
     sha256 = (\<lambda>b. take 2 (rev b)),
     urlsafe_b64encode = toy_b64encode,
     urlsafe_b64decode = toy_b64decode,
     dumps = toy_dumps,
     dumps_indent = (\<lambda>n. toy_dumps),
     loads = toy_loads,
     jws_sign = toy_sign,
     jws_deserialize = toy_deserialize,
     jws_verify = toy_verify,
     jws_payload = toy_payload,
     jwk_export_public = toy_export_public,
     jwk_from_json = toy_from_json,
     jwk_eq = (\<lambda>a b. key_name a = key_name b),
     DEFAULT_SIGNIGN_ALG = ''RS256'',
     SD_CLAIMS_KEY = ''sd_claims'' \<rparr>"

section \<open>Notions used in the statements\<close>

text \<open>A field of the payload that an issuance returns.\<close>

definition payload_field ::
  "string \<Rightarrow> error + ((json \<times> string \<times> json \<times> string) \<times> char stream) \<Rightarrow> error + json" where
  "payload_field k r =
     (case r of Inl e \<Rightarrow> Inl e | Inr ((p, rest), rng) \<Rightarrow> py_getitem p k)"

text \<open>The SD-JWT and the disclosure container of an issuance, the token of a release.\<close>

definition issued_sd_jwt ::
  "error + ((json \<times> string \<times> json \<times> string) \<times> char stream) \<Rightarrow> string" where
  "issued_sd_jwt r = (case r of Inl e \<Rightarrow> [] | Inr ((p, t, sp, svc), rng) \<Rightarrow> t)"

definition issued_svc ::
  "error + ((json \<times> string \<times> json \<times> string) \<times> char stream) \<Rightarrow> string" where
  "issued_svc r = (case r of Inl e \<Rightarrow> [] | Inr ((p, t, sp, svc), rng) \<Rightarrow> svc)"

definition released_token :: "error + (json \<times> string) \<Rightarrow> string" where
  "released_token r = (case r of Inl e \<Rightarrow> [] | Inr (p, t) \<Rightarrow> t)"

text \<open>
  A Python value is well formed when the keys of each of its dictionaries are distinct,
  as they are in every \<^verbatim>\<open>dict\<close>.
\<close>

fun wf_json :: "json \<Rightarrow> bool" where
  "wf_json (JList xs) = (\<forall>x \<in> set xs. wf_json x)"
| "wf_json (JObj d) = (distinct (map fst d) \<and> (\<forall>kv \<in> set d. wf_json (snd kv)))"
| "wf_json v = True"

text \<open>
  The paths (lists of keys) to the leaves of a tree, the value of a tree at a path, and
  whether a disclosure tree holds an entry (a leaf) at a path.
\<close>

definition is_leaf :: "json \<Rightarrow> bool" where
  "is_leaf v = (case v of JObj d \<Rightarrow> False | _ \<Rightarrow> True)"

fun leaf_paths :: "dict \<Rightarrow> string list list" where
  "leaf_paths [] = []"
| "leaf_paths ((k, JObj d) # rest) = map ((#) k) (leaf_paths d) @ leaf_paths rest"
| "leaf_paths ((k, v) # rest) = [k] # leaf_paths rest"

fun lookup_path :: "json \<Rightarrow> string list \<Rightarrow> json option" where
  "lookup_path v [] = Some v"
| "lookup_path (JObj d) (k # ks) =
     (case map_of d k of None \<Rightarrow> None | Some v \<Rightarrow> lookup_path v ks)"
| "lookup_path v (k # ks) = None"

definition has_entry :: "dict \<Rightarrow> string list \<Rightarrow> bool" where
  "has_entry tree path =
     (case lookup_path (JObj tree) path of
        None \<Rightarrow> False
      | Some (JObj d) \<Rightarrow> False
      | Some v \<Rightarrow> True)"

text \<open>
  \<open>chosen D C\<close>: the tree \<open>D\<close> chooses claims of \<open>C\<close> by key. Each key of \<open>D\<close> is
  a key of \<open>C\<close>; where \<open>D\<close> has a nested tree so has \<open>C\<close>, and where \<open>D\<close> has a leaf
  (a placeholder, whose value does not matter) \<open>C\<close> has a leaf. \<open>select C D\<close> is the
  part of \<open>C\<close> so chosen, with the values of \<open>C\<close>.
\<close>

fun chosen :: "dict \<Rightarrow> dict \<Rightarrow> bool" where
  "chosen [] C = True"
| "chosen ((k, JObj d) # rest) C =
     ((case map_of C k of Some (JObj c) \<Rightarrow> chosen d c | _ \<Rightarrow> False) \<and> chosen rest C)"
| "chosen ((k, v) # rest) C =
     ((case map_of C k of None \<Rightarrow> False | Some (JObj c) \<Rightarrow> False | Some x \<Rightarrow> True)
      \<and> chosen rest C)"

fun select :: "dict \<Rightarrow> dict \<Rightarrow> dict" where
  "select C [] = []"
| "select C ((k, JObj d) # rest) =
     (case map_of C k of
        Some (JObj c) \<Rightarrow> (k, JObj (select c d)) # select C rest
      | _ \<Rightarrow> select C rest)"
| "select C ((k, v) # rest) =
     (case map_of C k of
        None \<Rightarrow> select C rest
      | Some x \<Rightarrow> (k, x) # select C rest)"

text \<open>
  \<open>overlay cs C\<close>: the claim structure \<open>cs\<close> is congruent with the claims \<open>C\<close>
  where it is populated: at a key where \<open>C\<close> has a nested tree, \<open>cs\<close> has nothing or
  a congruent nested tree; at a key where \<open>C\<close> has a leaf, \<open>cs\<close> has no nested tree.
  The empty structure, the default, is congruent with every tree.
\<close>

fun overlay :: "dict \<Rightarrow> dict \<Rightarrow> bool" where
  "overlay cs [] = True"
| "overlay cs ((k, JObj d) # rest) =
     ((case map_of cs k of
         None \<Rightarrow> True
       | Some (JObj cs') \<Rightarrow> overlay cs' d
       | Some _ \<Rightarrow> False) \<and> overlay cs rest)"
| "overlay cs ((k, v) # rest) =
     ((case map_of cs k of Some (JObj cs') \<Rightarrow> False | _ \<Rightarrow> True) \<and> overlay cs rest)"

text \<open>
  What the operations expect of the libraries. The base64 codec writes ASCII and reads
  back what it wrote, with the padding stripped and two padding characters appended; the
  JSON codec reads back every well-formed value it wrote.
\<close>

definition codec_ok :: "('k, 'w) lib \<Rightarrow> bool" where
  "codec_ok L =
     ((\<forall>b. is_ascii (urlsafe_b64encode L b)) \<and>
      (\<forall>b. urlsafe_b64decode L (strip_eq (urlsafe_b64encode L b) @ ''=='') = Inr b) \<and>
      (\<forall>v. wf_json v \<longrightarrow> loads L (dumps L v) = Some v) \<and>
      (\<forall>n v. wf_json v \<longrightarrow> loads L (dumps_indent L n v) = Some v))"

text \<open>
  \<open>signs L sk pk\<close>: the key \<open>sk\<close> signs any payload into a compact token of three
  dot-separated segments, which parses and verifies under \<open>pk\<close> and then yields the
  payload.
\<close>

definition signs :: "('k, 'w) lib \<Rightarrow> 'k \<Rightarrow> 'k \<Rightarrow> bool" where
  "signs L sk pk =
     (\<forall>payload alg protected.
        \<exists>t w w'. jws_sign L payload sk alg protected = Inr t \<and>
                 length (split_dot t) = 3 \<and>
                 jws_deserialize L t = Inr w \<and>
                 jws_verify L w pk alg = Inr w' \<and>
                 jws_payload L w' = Inr payload)"

text \<open>
  \<open>exports L hk pk\<close>: the key \<open>hk\<close> exports a well-formed public JWK which, when it
  is not empty, is read back as a key equal to \<open>pk\<close>.
\<close>

definition exports :: "('k, 'w) lib \<Rightarrow> 'k \<Rightarrow> 'k \<Rightarrow> bool" where
  "exports L hk pk =
     (\<exists>j. jwk_export_public L hk = Inr j \<and> wf_json j \<and>
          (truthy j \<longrightarrow> (\<exists>k. jwk_from_json L (dumps L j) = Inr k \<and> jwk_eq L pk k)))"

text \<open>
  \<open>opens L CT DT C\<close>: at every leaf of the claims \<open>C\<close>, the disclosure tree
  \<open>DT\<close> holds a text whose hash is the commitment that the commitment tree \<open>CT\<close>
  holds there, and which parses as a pair of some salt and the claim value.
\<close>

definition sub_dict :: "dict \<Rightarrow> string \<Rightarrow> dict option" where
  "sub_dict tree k = (case map_of tree k of Some (JObj t) \<Rightarrow> Some t | _ \<Rightarrow> None)"

definition opens_at :: "('k, 'w) lib \<Rightarrow> dict \<Rightarrow> dict \<Rightarrow> string \<Rightarrow> json \<Rightarrow> bool" where
  "opens_at L CT DT k v =
     (\<exists>h raw salt. map_of CT k = Some (JStr h) \<and> map_of DT k = Some (JStr raw) \<and>
        hash_raw L raw = Inr h \<and> loads L raw = Some (JList [salt, v]))"

fun opens :: "('k, 'w) lib \<Rightarrow> dict \<Rightarrow> dict \<Rightarrow> dict \<Rightarrow> bool" where
  "opens L CT DT [] = True"
| "opens L CT DT ((k, JObj c) # rest) =
     ((case (sub_dict CT k, sub_dict DT k) of
         (Some ct, Some dt) \<Rightarrow> opens L ct dt c
       | _ \<Rightarrow> False) \<and> opens L CT DT rest)"
| "opens L CT DT ((k, v) # rest) = (opens_at L CT DT k v \<and> opens L CT DT rest)"

text \<open>
  What \<^verbatim>\<open>jwcrypto\<close> does with the payload of a token that has not been verified:
  \<^verbatim>\<open>JWS.payload\<close> raises \<^verbatim>\<open>InvalidJWSOperation\<close> on an object that \<^verbatim>\<open>deserialize\<close> has
  built and \<^verbatim>\<open>verify\<close> has not accepted.
\<close>

definition payload_guarded :: "('k, 'w) lib \<Rightarrow> bool" where
  "payload_guarded L =
     (\<forall>t w. jws_deserialize L t = Inr w \<longrightarrow>
        jws_payload L w = Inl (LibError ''InvalidJWSOperation''))"

text \<open>The combined presentation: the SD-JWT, a full stop, and the release.\<close>

definition combined :: "string \<Rightarrow> string \<Rightarrow> string" where
  "combined sd_jwt release = sd_jwt @ CHR ''.'' # release"

section \<open>Properties\<close>

subsection \<open>Dictionaries and strings\<close>

lemma map_of_foldl_update:
  "map_of (foldl (\<lambda>d (k, v). AList.update k v d) d kvs) = map_of d ++ map_of (rev kvs)"
proof (induction kvs arbitrary: d)
  case Nil
  then show ?case by simp
next
  case (Cons kv kvs)
  obtain k v where kv: "kv = (k, v)" by (cases kv)
  show ?case
    by (simp add: kv Cons.IH update_conv' map_add_upd_left map_add_assoc[symmetric])
       (simp add: map_add_def fun_eq_iff split: option.splits)
qed

lemma map_of_dict_of: "map_of (dict_of kvs) = map_of (rev kvs)"
  by (simp add: dict_of_def map_of_foldl_update)

lemma is_ascii_strip_eq: "is_ascii t \<Longrightarrow> is_ascii (strip_eq t)"
  by (auto simp: is_ascii_def strip_eq_def list_all_iff dest!: set_dropWhileD)

lemma b64_unpadded_ascii: "b64_unpadded L b = Inr t \<Longrightarrow> is_ascii t"
  by (auto simp: b64_unpadded_def decode_ascii_def is_ascii_strip_eq split: if_splits)

lemma hash_raw_ascii: "hash_raw L r = Inr h \<Longrightarrow> is_ascii h"
  by (simp add: hash_raw_def b64_unpadded_ascii)

lemma toy_b64encode_ascii: "is_ascii (toy_b64encode b)"
  by (induction b) (auto simp: is_ascii_def list_all_iff)

lemma or_int_zero: "or_int (Some 0) d = or_int None d"
  by (simp add: or_int_def)

subsection \<open>Timestamps of an issuance\<close>

lemma payload_iat_exp:
  assumes "create_sd_jwt_and_svc L now rng user_claims issuer issuer_key holder_key
             claim_structure iat exp = Inr ((p, t, sp, svc), rng')"
  shows "SD_CLAIMS_KEY L \<noteq> ''iat'' \<Longrightarrow> py_getitem p ''iat'' = Inr (JInt (or_int iat now))"
    and "SD_CLAIMS_KEY L \<noteq> ''exp'' \<Longrightarrow>
         py_getitem p ''exp'' = Inr (JInt (or_int exp (or_int iat now + 900)))"
    and "sign_compact L p issuer_key = Inr t"
  using assms
  by (auto simp: create_sd_jwt_and_svc_def Let_def py_getitem_def map_of_dict_of
        DEFAULT_EXP_MINS_def split: sum.splits prod.splits)

lemmas toy_issue_defs =
  payload_field_def create_sd_jwt_and_svc_def walk_by_structure_def toy_lib_def
  toy_export_public_def sign_compact_def toy_sign_def b64_unpadded_def decode_ascii_def
  toy_b64encode_ascii or_int_def DEFAULT_EXP_MINS_def dict_of_def py_getitem_def

text \<open>
  C8, as the code has it. When no expiry is supplied, the payload that is signed has
  the expiry 900 seconds after its issuance timestamp; a supplied expiry other than 0 is
  used unchanged. (A supplied expiry of 0 is replaced by the default.)
\<close>

theorem default_expiry:
  assumes "create_sd_jwt_and_svc L now rng user_claims issuer issuer_key holder_key
             claim_structure iat exp = Inr ((p, t, sp, svc), rng')"
    and "SD_CLAIMS_KEY L \<noteq> ''iat''" and "SD_CLAIMS_KEY L \<noteq> ''exp''"
  shows "sign_compact L p issuer_key = Inr t \<and>
         (\<exists>i. py_getitem p ''iat'' = Inr (JInt i) \<and>
              (exp = None \<longrightarrow> py_getitem p ''exp'' = Inr (JInt (i + 900))) \<and>
              (\<forall>e. exp = Some e \<and> e \<noteq> 0 \<longrightarrow> py_getitem p ''exp'' = Inr (JInt e)))"
  using payload_iat_exp [OF assms(1)] assms(2,3) by (auto simp: or_int_def)

theorem default_expiry_witness:
  "payload_field ''iat''
     (create_sd_jwt_and_svc toy_lib 1000 (sconst CHR ''A'') (JObj []) ''iss''
        (Private ''I'') (Private ''H'') (JObj []) None None) = Inr (JInt 1000) \<and>
   payload_field ''exp''
     (create_sd_jwt_and_svc toy_lib 1000 (sconst CHR ''A'') (JObj []) ''iss''
        (Private ''I'') (Private ''H'') (JObj []) None None) = Inr (JInt 1900)"
proof -
  let ?r = "create_sd_jwt_and_svc toy_lib 1000 (sconst CHR ''A'') (JObj []) ''iss''
        (Private ''I'') (Private ''H'') (JObj []) None None"
  have "\<exists>p t sp svc g. ?r = Inr ((p, t, sp, svc), g)"
    by (simp add: toy_issue_defs)
  then obtain p t sp svc g where r: "?r = Inr ((p, t, sp, svc), g)" by blast
  have k: "SD_CLAIMS_KEY toy_lib \<noteq> ''iat''" "SD_CLAIMS_KEY toy_lib \<noteq> ''exp''"
    by (simp_all add: toy_lib_def)
  from default_expiry [OF r k] have
    "\<exists>i. py_getitem p ''iat'' = Inr (JInt i) \<and> py_getitem p ''exp'' = Inr (JInt (i + 900))"
    by auto
  moreover have "payload_field ''iat'' ?r = Inr (JInt 1000)"
    by (simp add: toy_issue_defs)
  ultimately show ?thesis by (auto simp: r payload_field_def)
qed

text \<open>
  C8, as stated, fails: an expiry that is supplied as 0 is not used unchanged. Issued
  at time 1000 with \<open>exp = 0\<close>, the payload expires at 1900.
\<close>

theorem supplied_expiry_zero_replaced:
  "payload_field ''exp''
     (create_sd_jwt_and_svc toy_lib 1000 (sconst CHR ''A'') (JObj []) ''iss''
        (Private ''I'') (Private ''H'') (JObj []) None (Some 0)) = Inr (JInt 1900)"
  by (simp add: toy_issue_defs)

text \<open>
  C9. An issuance timestamp of 0 and an expiry of 0 are treated exactly like arguments
  that are left out: the whole result of the issuance is the same. With \<open>iat = 0\<close>
  the payload's issuance timestamp is the current time; with \<open>exp = 0\<close> its expiry is
  its issuance timestamp plus 900 seconds.
\<close>

theorem zero_timestamps_like_absent:
  "create_sd_jwt_and_svc L now rng user_claims issuer issuer_key holder_key claim_structure
     (Some 0) exp =
   create_sd_jwt_and_svc L now rng user_claims issuer issuer_key holder_key claim_structure
     None exp
   \<and>
   create_sd_jwt_and_svc L now rng user_claims issuer issuer_key holder_key claim_structure
     iat (Some 0) =
   create_sd_jwt_and_svc L now rng user_claims issuer issuer_key holder_key claim_structure
     iat None
   \<and>
   (create_sd_jwt_and_svc L now rng user_claims issuer issuer_key holder_key claim_structure
      (Some 0) exp = Inr ((p, t, sp, svc), rng') \<and> SD_CLAIMS_KEY L \<noteq> ''iat'' \<longrightarrow>
    py_getitem p ''iat'' = Inr (JInt now))
   \<and>
   (create_sd_jwt_and_svc L now rng user_claims issuer issuer_key holder_key claim_structure
      iat (Some 0) = Inr ((p', t', sp', svc'), rng'') \<and>
    SD_CLAIMS_KEY L \<noteq> ''iat'' \<and> SD_CLAIMS_KEY L \<noteq> ''exp'' \<longrightarrow>
    (\<exists>i. py_getitem p' ''iat'' = Inr (JInt i) \<and> py_getitem p' ''exp'' = Inr (JInt (i + 900))))"
proof (intro conjI impI)
  show "create_sd_jwt_and_svc L now rng user_claims issuer issuer_key holder_key claim_structure
          (Some 0) exp =
        create_sd_jwt_and_svc L now rng user_claims issuer issuer_key holder_key claim_structure
          None exp"
    unfolding create_sd_jwt_and_svc_def or_int_zero by simp
  show "create_sd_jwt_and_svc L now rng user_claims issuer issuer_key holder_key claim_structure
          iat (Some 0) =
        create_sd_jwt_and_svc L now rng user_claims issuer issuer_key holder_key claim_structure
          iat None"
    unfolding create_sd_jwt_and_svc_def or_int_zero by simp
  show "py_getitem p ''iat'' = Inr (JInt now)"
    if "create_sd_jwt_and_svc L now rng user_claims issuer issuer_key holder_key
          claim_structure (Some 0) exp = Inr ((p, t, sp, svc), rng') \<and>
        SD_CLAIMS_KEY L \<noteq> ''iat''"
    using payload_iat_exp(1) [of L now rng user_claims issuer issuer_key holder_key
                                 claim_structure "Some 0" exp p t sp svc rng'] that
    by (simp add: or_int_def)
  show "\<exists>i. py_getitem p' ''iat'' = Inr (JInt i) \<and> py_getitem p' ''exp'' = Inr (JInt (i + 900))"
    if "create_sd_jwt_and_svc L now rng user_claims issuer issuer_key holder_key
          claim_structure iat (Some 0) = Inr ((p', t', sp', svc'), rng'') \<and>
        SD_CLAIMS_KEY L \<noteq> ''iat'' \<and> SD_CLAIMS_KEY L \<noteq> ''exp''"
    using payload_iat_exp(1,2) [of L now rng user_claims issuer issuer_key holder_key
                                   claim_structure iat "Some 0" p' t' sp' svc' rng''] that
    by (simp add: or_int_def)
qed

theorem zero_timestamps_like_absent_witness:
  "payload_field ''iat''
     (create_sd_jwt_and_svc toy_lib 1000 (sconst CHR ''A'') (JObj []) ''iss''
        (Private ''I'') (Private ''H'') (JObj []) (Some 0) (Some 0)) = Inr (JInt 1000) \<and>
   payload_field ''exp''
     (create_sd_jwt_and_svc toy_lib 1000 (sconst CHR ''A'') (JObj []) ''iss''
        (Private ''I'') (Private ''H'') (JObj []) (Some 0) (Some 0)) = Inr (JInt 1900)"
proof -
  let ?r = "create_sd_jwt_and_svc toy_lib 1000 (sconst CHR ''A'') (JObj []) ''iss''
        (Private ''I'') (Private ''H'') (JObj []) (Some 0) (Some 0)"
  have "\<exists>p t sp svc g. ?r = Inr ((p, t, sp, svc), g)"
    by (simp add: toy_issue_defs)
  then obtain p t sp svc g where r: "?r = Inr ((p, t, sp, svc), g)" by blast
  have k: "SD_CLAIMS_KEY toy_lib \<noteq> ''iat''" "SD_CLAIMS_KEY toy_lib \<noteq> ''exp''"
    by (simp_all add: toy_lib_def)
  from zero_timestamps_like_absent
         [where L = toy_lib and now = 1000 and rng = "sconst CHR ''A''"
            and user_claims = "JObj []" and issuer = "''iss''" and issuer_key = "Private ''I''"
            and holder_key = "Private ''H''" and claim_structure = "JObj []"
            and iat = "Some 0" and exp = "Some 0"
            and p = p and t = t and sp = sp and svc = svc and rng' = g
            and p' = p and t' = t and sp' = sp and svc' = svc and rng'' = g] r k
  have "py_getitem p ''iat'' = Inr (JInt 1000)"
    and "\<exists>i. py_getitem p ''iat'' = Inr (JInt i) \<and> py_getitem p ''exp'' = Inr (JInt (i + 900))"
    by blast+
  then show ?thesis by (auto simp: r payload_field_def)
qed

subsection \<open>Arguments of a verification\<close>

text \<open>
  C7. With a holder key supplied and the expected audience or the expected nonce left
  out, \<open>verify\<close> fails with \<open>InvalidArguments\<close>, whatever the presentation is and
  whatever the libraries would do with it: nothing is parsed or checked before.
\<close>

theorem verify_needs_aud_and_nonce:
  "expected_aud = None \<or> expected_nonce = None \<Longrightarrow>
   verify L combined_presentation issuer_public_key expected_issuer (Some holder_public_key)
     expected_aud expected_nonce = Inl InvalidArguments"
  by (auto simp: verify_def not_str_def)

theorem verify_needs_aud_and_nonce_witness:
  "verify toy_lib ''not a presentation'' (Public ''I'') ''iss'' (Some (Public ''H''))
     None (Some ''n1'') = Inl InvalidArguments"
  using verify_needs_aud_and_nonce
    [of None "Some ''n1''" toy_lib "''not a presentation''" "Public ''I''" "''iss''"
        "Public ''H''"]
  by simp

text \<open>
  C10. With a holder key supplied, an expected audience or an expected nonce that is the
  empty string makes \<open>verify\<close> fail with \<open>InvalidArguments\<close>, although it was
  supplied.
\<close>

theorem verify_rejects_empty_aud_or_nonce:
  "expected_aud = Some [] \<or> expected_nonce = Some [] \<Longrightarrow>
   verify L combined_presentation issuer_public_key expected_issuer (Some holder_public_key)
     expected_aud expected_nonce = Inl InvalidArguments"
  by (auto simp: verify_def not_str_def)

theorem verify_rejects_empty_aud_or_nonce_witness:
  "verify toy_lib ''a.b.c.d.e.f'' (Public ''I'') ''iss'' (Some (Public ''H''))
     (Some '''') (Some ''n1'') = Inl InvalidArguments"
  using verify_rejects_empty_aud_or_nonce
    [of "Some ''''" "Some ''n1''" toy_lib "''a.b.c.d.e.f''" "Public ''I''" "''iss''"
        "Public ''H''"]
  by simp


subsection \<open>The check of one disclosed claim\<close>

lemma replicate_numeral: "replicate (numeral k) x = x # replicate (pred_numeral k) x"
  by (simp add: numeral_eq_Suc)

lemmas toy_eval =
  toy_lib_def toy_loads_def toy_run_def toy_sign_def toy_deserialize_def toy_verify_def toy_payload_def
  toy_from_json_def toy_export_public_def sign_compact_def dict_of_def replicate_numeral
  hash_raw_def b64_unpadded_def decode_ascii_def is_ascii_def strip_eq_def

text \<open>
  C2. Let \<open>h\<close> be the base64url-encoded SHA-256 hash of the disclosed text \<open>r\<close>,
  and let \<open>c\<close> be an expected commitment: base64url text, hence ASCII. The check
  fails with \<open>CommitmentMismatch\<close> exactly when \<open>h\<close> differs from \<open>c\<close>; when
  they are equal, it fails with \<open>MalformedDisclosure\<close> exactly when \<open>r\<close> does not
  parse as a 2-element array, and otherwise it returns element 1 of the array.
\<close>

theorem check_claim_contract:
  assumes "hash_raw L r = Inr h" and "is_ascii c"
  shows "((check_claim L claim_name (JStr r) (JStr c) = Inl CommitmentMismatch) = (h \<noteq> c)) \<and>
         (h = c \<longrightarrow>
            (\<exists>e. check_claim L claim_name (JStr r) (JStr c) = Inl e \<and> MalformedDisclosure e)
              = (\<not> (\<exists>salt v. loads L r = Some (JList [salt, v])))) \<and>
         (h = c \<longrightarrow>
            (\<forall>salt v. loads L r = Some (JList [salt, v]) \<longrightarrow>
               check_claim L claim_name (JStr r) (JStr c) = Inr v))"
proof -
  have h: "is_ascii h" using assms(1) by (rule hash_raw_ascii)
  have len2: "\<And>xs :: json list. length xs = 2 \<Longrightarrow> \<exists>a b. xs = [a, b]"
    by (metis One_nat_def Suc_1 length_0_conv length_Suc_conv)
  show ?thesis
    using assms h
    by (auto simp: check_claim_def compare_digest_def MalformedDisclosure_def
          CommitmentMismatch_def NotAList_def NotLength2_def
          split: option.splits json.splits dest: len2)
qed

theorem check_claim_contract_witness:
  "check_claim toy_lib ''age'' (JStr ''lecsa0+++++++a'') (JStr ''abaaaaaacaaaaaaaaaaabaac'')
     = Inr (JInt 7)"
proof -
  have hr: "hash_raw toy_lib ''lecsa0+++++++a'' = Inr ''abaaaaaacaaaaaaaaaaabaac''"
    by (simp add: toy_eval)
  have asc: "is_ascii ''abaaaaaacaaaaaaaaaaabaac''"
    using hr by (rule hash_raw_ascii)
  have ld: "loads toy_lib ''lecsa0+++++++a'' = Some (JList [JStr ''s'', JInt 7])"
    by (simp add: toy_eval)
  from check_claim_contract [OF hr asc, of "''age''"] ld
  show ?thesis by simp
qed

text \<open>
  A string with a non-ASCII character is no commitment. Where the commitment tree holds
  one, \<^verbatim>\<open>compare_digest\<close> raises \<open>TypeError\<close> before the source can raise its own
  error.
\<close>

lemma check_claim_non_ascii:
  "hash_raw L r = Inr h \<Longrightarrow> \<not> is_ascii c \<Longrightarrow>
   check_claim L claim_name (JStr r) (JStr c) = Inl TypeError"
  by (simp add: check_claim_def compare_digest_def)

subsection \<open>The release token\<close>

text \<open>
  C3, as the code has it. With a holder key supplied and a release token that parses:
  when the SD-JWT payload embeds a holder key (a true value) that reads as a key unequal
  to the supplied one, the verification fails with \<open>HolderKeyMismatch\<close>. When the
  payload embeds no holder key, no comparison is made: the result does not depend on the
  operations that read and compare keys. In that case, as when the embedded key equals
  the supplied one, the verification goes on to check the signature of the release
  token with the supplied key: a failure of that check is the result. When the check
  passes, the audience and then the nonce of the payload are compared with the expected
  ones: a payload with another audience fails with \<open>InvalidAudience\<close>, one with
  another nonce with \<open>InvalidNonce\<close>, and for a payload that holds both the released
  claims are returned.
\<close>

theorem holder_key_compared_when_embedded:
  "(jws_deserialize L t = Inr w \<and> truthy hpp \<and> jwk_from_json L (dumps L hpp) = Inr pk \<and>
    \<not> jwk_eq L hk pk \<longrightarrow>
      verify_sd_jwt_release L t (Some hk) expected_aud expected_nonce hpp
        = Inl HolderKeyMismatch) \<and>
   (\<not> truthy hpp \<longrightarrow>
      verify_sd_jwt_release (L\<lparr>jwk_from_json := f, jwk_eq := g\<rparr>) t (Some hk)
          expected_aud expected_nonce hpp
        = verify_sd_jwt_release L t (Some hk) expected_aud expected_nonce hpp) \<and>
   (jws_deserialize L t = Inr w \<and>
    (\<not> truthy hpp \<or> jwk_from_json L (dumps L hpp) = Inr pk \<and> jwk_eq L hk pk) \<and>
    jws_verify L w hk (DEFAULT_SIGNIGN_ALG L) = Inl e \<longrightarrow>
      verify_sd_jwt_release L t (Some hk) expected_aud expected_nonce hpp = Inl e) \<and>
   (jws_deserialize L t = Inr w \<and>
    (\<not> truthy hpp \<or> jwk_from_json L (dumps L hpp) = Inr pk \<and> jwk_eq L hk pk) \<and>
    jws_verify L w hk (DEFAULT_SIGNIGN_ALG L) = Inr w' \<and>
    jws_payload L w' = Inr payload_text \<and> loads L payload_text = Some (JObj d) \<and>
    map_of d ''aud'' = Some (JStr aud) \<and> map_of d ''nonce'' = Some (JStr nonce) \<and>
    map_of d (SD_CLAIMS_KEY L) = Some c \<longrightarrow>
      verify_sd_jwt_release L t (Some hk) (Some aud) (Some nonce) hpp = Inr c) \<and>
   (jws_deserialize L t = Inr w \<and>
    (\<not> truthy hpp \<or> jwk_from_json L (dumps L hpp) = Inr pk \<and> jwk_eq L hk pk) \<and>
    jws_verify L w hk (DEFAULT_SIGNIGN_ALG L) = Inr w' \<and>
    jws_payload L w' = Inr payload_text \<and> loads L payload_text = Some (JObj d) \<and>
    map_of d ''aud'' = Some a \<and> ne_str a expected_aud \<longrightarrow>
      verify_sd_jwt_release L t (Some hk) expected_aud expected_nonce hpp
        = Inl InvalidAudience) \<and>
   (jws_deserialize L t = Inr w \<and>
    (\<not> truthy hpp \<or> jwk_from_json L (dumps L hpp) = Inr pk \<and> jwk_eq L hk pk) \<and>
    jws_verify L w hk (DEFAULT_SIGNIGN_ALG L) = Inr w' \<and>
    jws_payload L w' = Inr payload_text \<and> loads L payload_text = Some (JObj d) \<and>
    map_of d ''aud'' = Some a \<and> \<not> ne_str a expected_aud \<and>
    map_of d ''nonce'' = Some n \<and> ne_str n expected_nonce \<longrightarrow>
      verify_sd_jwt_release L t (Some hk) expected_aud expected_nonce hpp
        = Inl InvalidNonce)"
proof (intro conjI impI)
  show "verify_sd_jwt_release L t (Some hk) expected_aud expected_nonce hpp
          = Inl InvalidAudience"
    if "jws_deserialize L t = Inr w \<and>
        (\<not> truthy hpp \<or> jwk_from_json L (dumps L hpp) = Inr pk \<and> jwk_eq L hk pk) \<and>
        jws_verify L w hk (DEFAULT_SIGNIGN_ALG L) = Inr w' \<and>
        jws_payload L w' = Inr payload_text \<and> loads L payload_text = Some (JObj d) \<and>
        map_of d ''aud'' = Some a \<and> ne_str a expected_aud"
    using that
    by (auto simp: verify_sd_jwt_release_def check_sub_jwk_def check_release_signature_def
          check_aud_nonce_def py_getitem_def)
  show "verify_sd_jwt_release L t (Some hk) expected_aud expected_nonce hpp
          = Inl InvalidNonce"
    if "jws_deserialize L t = Inr w \<and>
        (\<not> truthy hpp \<or> jwk_from_json L (dumps L hpp) = Inr pk \<and> jwk_eq L hk pk) \<and>
        jws_verify L w hk (DEFAULT_SIGNIGN_ALG L) = Inr w' \<and>
        jws_payload L w' = Inr payload_text \<and> loads L payload_text = Some (JObj d) \<and>
        map_of d ''aud'' = Some a \<and> \<not> ne_str a expected_aud \<and>
        map_of d ''nonce'' = Some n \<and> ne_str n expected_nonce"
    using that
    by (auto simp: verify_sd_jwt_release_def check_sub_jwk_def check_release_signature_def
          check_aud_nonce_def py_getitem_def)
  show "verify_sd_jwt_release L t (Some hk) expected_aud expected_nonce hpp
          = Inl HolderKeyMismatch"
    if "jws_deserialize L t = Inr w \<and> truthy hpp \<and>
        jwk_from_json L (dumps L hpp) = Inr pk \<and> \<not> jwk_eq L hk pk"
    using that by (simp add: verify_sd_jwt_release_def check_sub_jwk_def)
  show "verify_sd_jwt_release (L\<lparr>jwk_from_json := f, jwk_eq := g\<rparr>) t (Some hk)
            expected_aud expected_nonce hpp
          = verify_sd_jwt_release L t (Some hk) expected_aud expected_nonce hpp"
    if "\<not> truthy hpp"
    using that
    by (auto simp: verify_sd_jwt_release_def check_sub_jwk_def check_release_signature_def
          split: sum.splits option.splits)
  show "verify_sd_jwt_release L t (Some hk) expected_aud expected_nonce hpp = Inl e"
    if "jws_deserialize L t = Inr w \<and>
        (\<not> truthy hpp \<or> jwk_from_json L (dumps L hpp) = Inr pk \<and> jwk_eq L hk pk) \<and>
        jws_verify L w hk (DEFAULT_SIGNIGN_ALG L) = Inl e"
    using that
    by (auto simp: verify_sd_jwt_release_def check_sub_jwk_def check_release_signature_def)
  show "verify_sd_jwt_release L t (Some hk) (Some aud) (Some nonce) hpp = Inr c"
    if "jws_deserialize L t = Inr w \<and>
        (\<not> truthy hpp \<or> jwk_from_json L (dumps L hpp) = Inr pk \<and> jwk_eq L hk pk) \<and>
        jws_verify L w hk (DEFAULT_SIGNIGN_ALG L) = Inr w' \<and>
        jws_payload L w' = Inr payload_text \<and> loads L payload_text = Some (JObj d) \<and>
        map_of d ''aud'' = Some (JStr aud) \<and> map_of d ''nonce'' = Some (JStr nonce) \<and>
        map_of d (SD_CLAIMS_KEY L) = Some c"
    using that
    by (auto simp: verify_sd_jwt_release_def check_sub_jwk_def check_release_signature_def
          check_aud_nonce_def py_getitem_def py_contains_def ne_str_def)
qed

theorem holder_key_compared_when_embedded_witness:
  "verify_sd_jwt_release toy_lib
     (projr (sign_compact toy_lib
        (JObj [(''nonce'', JStr ''n1''), (''aud'', JStr ''v1''), (''sd_claims'', JObj [])])
        (Private ''H'')))
     (Some (Public ''H'')) (Some ''v1'') (Some ''n1'')
     (JObj [(''kty'', JStr ''toy''), (''n'', JStr ''X'')])
   = Inl HolderKeyMismatch \<and>
   verify_sd_jwt_release toy_lib
     (projr (sign_compact toy_lib
        (JObj [(''nonce'', JStr ''n1''), (''aud'', JStr ''v1''), (''sd_claims'', JObj [])])
        (Private ''H'')))
     (Some (Public ''M'')) (Some ''v1'') (Some ''n1'') JNull
   = Inl (LibError ''InvalidJWSSignature'')"
proof -
  let ?t = "projr (sign_compact toy_lib
        (JObj [(''nonce'', JStr ''n1''), (''aud'', JStr ''v1''), (''sd_claims'', JObj [])])
        (Private ''H''))"
  let ?hpp = "JObj [(''kty'', JStr ''toy''), (''n'', JStr ''X'')]"
  have d: "\<exists>w. jws_deserialize toy_lib ?t = Inr w \<and>
             jws_verify toy_lib w (Public ''M'') (DEFAULT_SIGNIGN_ALG toy_lib)
               = Inl (LibError ''InvalidJWSSignature'')"
    by (simp add: toy_eval)
  then obtain w where w: "jws_deserialize toy_lib ?t = Inr w"
    and v: "jws_verify toy_lib w (Public ''M'') (DEFAULT_SIGNIGN_ALG toy_lib)
              = Inl (LibError ''InvalidJWSSignature'')" by blast
  have k: "jwk_from_json toy_lib (dumps toy_lib ?hpp) = Inr (Public ''X'')"
    by (simp add: toy_eval)
  have ne: "\<not> jwk_eq toy_lib (Public ''H'') (Public ''X'')"
    by (simp add: toy_lib_def)
  have tr: "truthy ?hpp" by simp
  have nt: "\<not> truthy JNull" by simp
  from holder_key_compared_when_embedded
         [where L = toy_lib and t = ?t and w = w and hpp = ?hpp and pk = "Public ''X''"
            and hk = "Public ''H''" and expected_aud = "Some ''v1''"
            and expected_nonce = "Some ''n1''"]
       w k ne tr
  have one: "verify_sd_jwt_release toy_lib ?t (Some (Public ''H'')) (Some ''v1'') (Some ''n1'')
               ?hpp = Inl HolderKeyMismatch" by blast
  from holder_key_compared_when_embedded
         [where L = toy_lib and t = ?t and w = w and hpp = JNull
            and hk = "Public ''M''" and expected_aud = "Some ''v1''"
            and expected_nonce = "Some ''n1''" and e = "LibError ''InvalidJWSSignature''"]
       w v nt
  have two: "verify_sd_jwt_release toy_lib ?t (Some (Public ''M'')) (Some ''v1'') (Some ''n1'')
               JNull = Inl (LibError ''InvalidJWSSignature'')" by blast
  from one two show ?thesis by blast
qed

text \<open>
  C3, as stated, fails: the holder key is supplied, the SD-JWT payload embeds no holder
  key (\<open>JNull\<close> is Python's \<^verbatim>\<open>None\<close>), and the verification of the release token does
  not fail with \<open>HolderKeyMismatch\<close>: it succeeds and returns the released claims.
\<close>

theorem absent_embedded_key_accepted:
  "verify_sd_jwt_release toy_lib
     (projr (sign_compact toy_lib
        (JObj [(''nonce'', JStr ''n1''), (''aud'', JStr ''v1''), (''sd_claims'', JObj [])])
        (Private ''H'')))
     (Some (Public ''H'')) (Some ''v1'') (Some ''n1'') JNull
   = Inr (JObj [])"
  by (simp add: verify_sd_jwt_release_def check_sub_jwk_def check_release_signature_def
        check_aud_nonce_def toy_eval py_getitem_def py_contains_def ne_str_def)

text \<open>
  Without a holder key, none of the three guarded blocks of \<^verbatim>\<open>_verify_sd_jwt_release\<close>
  runs: the result is the same whatever the signature verification of the library does
  and whatever audience and nonce are expected.
\<close>

lemma release_without_key:
  "verify_sd_jwt_release (L\<lparr>jws_verify := f\<rparr>) t None expected_aud expected_nonce hpp
     = verify_sd_jwt_release L t None expected_aud' expected_nonce' hpp"
  by (auto simp: verify_sd_jwt_release_def check_sub_jwk_def check_release_signature_def
        check_aud_nonce_def split: sum.splits option.splits)


subsection \<open>The concrete instance meets the expectations\<close>

lemma toy_run_Cons: "toy_run (c # t) st = toy_run t (toy_step st c)"
  by (simp add: toy_run_def)

lemma toy_run_Nil: "toy_run [] st = st"
  by (simp add: toy_run_def)

lemma toy_run_str:
  "toy_run (toy_str s @ rest) (Some (JStr acc # stk, False))
     = toy_run rest (Some (JStr (acc @ s) # stk, False))"
  by (induction s arbitrary: acc) (simp_all add: toy_run_Cons)

lemma toy_run_plus:
  "toy_run (replicate n CHR ''+'' @ rest) (Some (JInt i # stk, False))
     = toy_run rest (Some (JInt (i + int n) # stk, False))"
  by (induction n arbitrary: i) (simp_all add: toy_run_Cons algebra_simps)

lemma toy_run_minus:
  "toy_run (replicate n CHR ''-'' @ rest) (Some (JInt i # stk, False))
     = toy_run rest (Some (JInt (i - int n) # stk, False))"
  by (induction n arbitrary: i) (simp_all add: toy_run_Cons algebra_simps)

lemma toy_run_dumps:
  "toy_run (toy_dumps v @ rest) (Some (stk, False)) = toy_run rest (Some (v # stk, False))"
  "toy_run (toy_dumps_list xs @ rest) (Some (JList acc # stk, False))
     = toy_run rest (Some (JList (acc @ xs) # stk, False))"
  "toy_run (toy_dumps_dict d @ rest) (Some (JObj dacc # stk, False))
     = toy_run rest (Some (JObj (dacc @ d) # stk, False))"
proof (induction v and xs and d arbitrary: stk rest and acc stk rest and dacc stk rest
       rule: toy_dumps_toy_dumps_list_toy_dumps_dict.induct)
  case (3 i)
  then show ?case
    using toy_run_plus [of "nat i" rest 0 stk] toy_run_minus [of "nat (- i)" rest 0 stk]
    by (simp add: toy_run_Cons)
next
  case (4 s)
  then show ?case
    using toy_run_str [of s rest "[]" stk] by (simp add: toy_run_Cons)
next
  case (10 k v d)
  have "toy_run (toy_dumps_dict ((k, v) # d) @ rest) (Some (JObj dacc # stk, False))
        = toy_run (toy_str k @ toy_dumps v @ CHR ''p'' # toy_dumps_dict d @ rest)
            (Some (JStr [] # JObj dacc # stk, False))"
    by (simp add: toy_run_Cons)
  also have "\<dots> = toy_run (toy_dumps v @ CHR ''p'' # toy_dumps_dict d @ rest)
            (Some (JStr k # JObj dacc # stk, False))"
    using toy_run_str [of k _ "[]"] by simp
  also have "\<dots> = toy_run (toy_dumps_dict d @ rest) (Some (JObj (dacc @ [(k, v)]) # stk, False))"
    by (simp add: "10.IH"(1) toy_run_Cons)
  also have "\<dots> = toy_run rest (Some (JObj (dacc @ (k, v) # d) # stk, False))"
    by (simp add: "10.IH"(2))
  finally show ?case .
qed (simp_all add: toy_run_Cons toy_run_Nil)

lemma toy_loads_dumps: "toy_loads (toy_dumps v) = Some v"
  using toy_run_dumps(1) [of v "[]" "[]"] by (simp add: toy_loads_def toy_run_Nil)

lemma toy_b64_run:
  "foldl toy_b64step (Some (n, lo, out)) (replicate m CHR ''a'') = Some (n + m, lo, out)"
  by (induction m arbitrary: n) simp_all

lemma toy_b64_roundtrip:
  "foldl toy_b64step (Some (0, 0, out)) (toy_b64encode b) = Some (0, 0, out @ b)"
proof (induction b arbitrary: out)
  case Nil
  then show ?case by simp
next
  case (Cons c b)
  have "of_char c mod 16 + 16 * (of_char c div 16) = (of_char c :: nat)"
    by presburger
  then show ?case
    by (simp add: toy_b64_run Cons.IH)
qed

lemma toy_b64encode_no_eq: "CHR ''='' \<notin> set (toy_b64encode b)"
  by (induction b) auto

lemma dropWhile_none: "\<forall>x \<in> set s. \<not> P x \<Longrightarrow> dropWhile P s = s"
  by (cases s) auto

lemma strip_eq_id:
  assumes "CHR ''='' \<notin> set s"
  shows "strip_eq s = s"
proof -
  have "\<forall>x \<in> set s. \<not> x = CHR ''=''" using assms by auto
  then show ?thesis by (simp add: strip_eq_def dropWhile_none)
qed

lemma toy_b64decode_encode:
  "toy_b64decode (strip_eq (toy_b64encode b) @ ''=='') = Inr b"
  by (simp add: toy_b64decode_def strip_eq_id toy_b64encode_no_eq toy_b64_roundtrip)

lemma toy_codec_ok: "codec_ok toy_lib"
  by (simp add: codec_ok_def toy_lib_def toy_b64encode_ascii toy_b64decode_encode
        toy_loads_dumps)

lemma armor_no_dot: "CHR ''.'' \<notin> set (armor s)"
  by (induction s) auto

lemma unarmor_armor: "unarmor (armor s) = s"
proof (induction s)
  case Nil
  then show ?case by simp
next
  case (Cons c s)
  show ?case
  proof (cases "c = CHR ''.'' \<or> c = CHR ''~''")
    case True
    then show ?thesis using Cons by auto
  next
    case False
    then show ?thesis using Cons by (cases "armor s") auto
  qed
qed

lemma split_dot_not_Nil: "split_dot s \<noteq> []"
  by (induction s) (auto split: list.splits)

lemma split_dot_no_dot: "CHR ''.'' \<notin> set s \<Longrightarrow> split_dot s = [s]"
  by (induction s) auto

lemma split_dot_append: "split_dot (a @ CHR ''.'' # b) = split_dot a @ split_dot b"
  using split_dot_not_Nil by (induction a) (auto split: list.splits)

lemma join_dot_split_dot: "join_dot (split_dot s) = s"
proof (induction s)
  case Nil
  then show ?case by simp
next
  case (Cons c s)
  then show ?case
    using split_dot_not_Nil [of s]
    by (cases "split_dot s"; cases "tl (split_dot s)") auto
qed

lemma toy_signs: "signs toy_lib (Private n) (Public n)"
  by (simp add: signs_def toy_lib_def toy_sign_def toy_deserialize_def toy_verify_def toy_payload_def
        split_dot_append split_dot_no_dot armor_no_dot unarmor_armor)

lemma toy_exports: "key_name hk = key_name pk \<Longrightarrow> exports toy_lib hk pk"
  by (simp add: exports_def toy_lib_def toy_export_public_def toy_from_json_def
        toy_loads_dumps)

subsection \<open>Salts\<close>

lemma last_dropWhile: "dropWhile P xs \<noteq> [] \<Longrightarrow> last (dropWhile P xs) = last xs"
  by (metis last_appendR takeWhile_dropWhile_id)

lemma strip_eq_ends:
  assumes "strip_eq s \<noteq> []"
  shows "hd (strip_eq s) \<noteq> CHR ''=''" and "last (strip_eq s) \<noteq> CHR ''=''"
proof -
  let ?P = "\<lambda>c. c = CHR ''=''"
  let ?t = "dropWhile ?P s"
  let ?u = "dropWhile ?P (rev ?t)"
  from assms have u: "?u \<noteq> []" by (simp add: strip_eq_def)
  have t: "?t \<noteq> []"
  proof
    assume "?t = []"
    then have "?u = []" by (simp only: rev.simps dropWhile.simps)
    with u show False by (simp only:)
  qed
  have "hd (strip_eq s) = last ?u" using u by (simp add: strip_eq_def hd_rev)
  also have "\<dots> = last (rev ?t)" using u by (rule last_dropWhile)
  also have "\<dots> = hd ?t" using t by (simp add: last_rev)
  finally show "hd (strip_eq s) \<noteq> CHR ''=''" using hd_dropWhile [OF t] by simp
  have "last (strip_eq s) = hd ?u" using u by (simp add: strip_eq_def last_rev)
  then show "last (strip_eq s) \<noteq> CHR ''=''" using hd_dropWhile [OF u] by simp
qed

lemma generate_salt_value:
  assumes "is_ascii (urlsafe_b64encode L (stake 16 rng))"
  shows "generate_salt L rng = Inr (strip_eq (urlsafe_b64encode L (stake 16 rng)), sdrop 16 rng)"
  using assms by (simp add: generate_salt_def b64_unpadded_def decode_ascii_def)

lemma toy_salt:
  "generate_salt toy_lib (sconst c) = Inr (toy_b64encode (replicate 16 c), sconst c)"
  by (simp add: generate_salt_def b64_unpadded_def decode_ascii_def toy_lib_def
        toy_b64encode_ascii strip_eq_id toy_b64encode_no_eq map_replicate_const)

lemma toy_salts_differ:
  "toy_b64encode (replicate 16 CHR ''A'') \<noteq> toy_b64encode (replicate 16 CHR ''B'')"
proof -
  have "hd (tl (toy_b64encode (replicate 16 CHR ''A''))) = CHR ''b''"
    by (simp add: replicate_numeral)
  moreover have "hd (tl (toy_b64encode (replicate 16 CHR ''B''))) = CHR ''a''"
    by (simp add: replicate_numeral)
  ultimately show ?thesis by auto
qed

text \<open>
  C4, as the code has it. Where the base64 encoder writes ASCII, as every base64
  encoder does, a call of \<^verbatim>\<open>generate_salt\<close> succeeds and returns a fresh 16-byte value,
  URL-safe-base64 encoded without padding: the encoding, with no equals sign at either
  end, of the next 16 bytes of the generator of the \<^verbatim>\<open>random\<close> module, which is
  left 16 bytes further on, so that the next call draws the bytes that follow. The
  generator of the operating system is not read: it is left as it was, and the salt is
  the same whatever bytes it holds.
\<close>

theorem salt_generation:
  assumes "is_ascii (urlsafe_b64encode L (stake 16 (random_module G)))"
  shows "generate_salt_from L G =
           Inr (strip_eq (urlsafe_b64encode L (stake 16 (random_module G))),
                G\<lparr>random_module := sdrop 16 (random_module G)\<rparr>) \<and>
         length (stake 16 (random_module G)) = 16 \<and>
         is_ascii (strip_eq (urlsafe_b64encode L (stake 16 (random_module G)))) \<and>
         (strip_eq (urlsafe_b64encode L (stake 16 (random_module G))) \<noteq> [] \<longrightarrow>
            hd (strip_eq (urlsafe_b64encode L (stake 16 (random_module G)))) \<noteq> CHR ''='' \<and>
            last (strip_eq (urlsafe_b64encode L (stake 16 (random_module G)))) \<noteq> CHR ''='') \<and>
         generate_salt_from L (G\<lparr>os_urandom := u\<rparr>) =
           Inr (strip_eq (urlsafe_b64encode L (stake 16 (random_module G))),
                G\<lparr>random_module := sdrop 16 (random_module G), os_urandom := u\<rparr>)"
proof (intro conjI impI)
  show "generate_salt_from L G =
          Inr (strip_eq (urlsafe_b64encode L (stake 16 (random_module G))),
               G\<lparr>random_module := sdrop 16 (random_module G)\<rparr>)"
    by (simp add: generate_salt_from_def generate_salt_value [OF assms])
  show "generate_salt_from L (G\<lparr>os_urandom := u\<rparr>) =
          Inr (strip_eq (urlsafe_b64encode L (stake 16 (random_module G))),
               G\<lparr>random_module := sdrop 16 (random_module G), os_urandom := u\<rparr>)"
    by (simp add: generate_salt_from_def generate_salt_value [OF assms])
  show "length (stake 16 (random_module G)) = 16" by simp
  show "is_ascii (strip_eq (urlsafe_b64encode L (stake 16 (random_module G))))"
    using assms by (rule is_ascii_strip_eq)
  show "hd (strip_eq (urlsafe_b64encode L (stake 16 (random_module G)))) \<noteq> CHR ''=''"
    if "strip_eq (urlsafe_b64encode L (stake 16 (random_module G))) \<noteq> []"
    using that by (rule strip_eq_ends)
  show "last (strip_eq (urlsafe_b64encode L (stake 16 (random_module G)))) \<noteq> CHR ''=''"
    if "strip_eq (urlsafe_b64encode L (stake 16 (random_module G))) \<noteq> []"
    using that by (rule strip_eq_ends)
qed

theorem salt_generation_witness:
  "generate_salt_from toy_lib
     \<lparr>random_module = shift ''0123456789abcdef'' (sconst CHR ''z''),
        os_urandom = sconst CHR ''U''\<rparr>
   = Inr (toy_b64encode ''0123456789abcdef'',
          \<lparr>random_module = sconst CHR ''z'', os_urandom = sconst CHR ''U''\<rparr>)"
proof -
  let ?G = "\<lparr>random_module = shift ''0123456789abcdef'' (sconst CHR ''z''),
              os_urandom = sconst CHR ''U''\<rparr>"
  have st: "stake 16 (random_module ?G) = ''0123456789abcdef''"
    by (simp add: stake_shift del: shift.simps)
  have "sdrop 16 (shift ''0123456789abcdef'' (sconst CHR ''z''))
          = shift (drop 16 ''0123456789abcdef'')
              (sdrop (16 - length ''0123456789abcdef'') (sconst CHR ''z''))"
    by (rule sdrop_shift)
  also have "\<dots> = sconst CHR ''z''" by simp
  finally have sd: "sdrop 16 (random_module ?G) = sconst CHR ''z''"
    by (simp del: shift.simps)
  have a: "is_ascii (urlsafe_b64encode toy_lib (stake 16 (random_module ?G)))"
    unfolding st by (simp add: toy_lib_def toy_b64encode_ascii del: toy_b64encode.simps)
  have e: "strip_eq (urlsafe_b64encode toy_lib (stake 16 (random_module ?G)))
             = toy_b64encode ''0123456789abcdef''"
    unfolding st
    by (simp add: toy_lib_def strip_eq_id toy_b64encode_no_eq del: toy_b64encode.simps)
  from salt_generation [OF a] have
    "generate_salt_from toy_lib ?G =
       Inr (strip_eq (urlsafe_b64encode toy_lib (stake 16 (random_module ?G))),
            ?G\<lparr>random_module := sdrop 16 (random_module ?G)\<rparr>)"
    by blast
  then show ?thesis unfolding e sd by (simp del: toy_b64encode.simps shift.simps)
qed

text \<open>
  C4, as stated, fails: the bytes of a salt are not drawn from the generator of the
  operating system, the CSPRNG of a Python process, but from the general-purpose
  generator of the \<^verbatim>\<open>random\<close> module. Two processes whose CSPRNG holds the same
  bytes and whose general-purpose generators differ get different salts, each the
  encoding of the bytes of its general-purpose generator.
\<close>

theorem salt_drawn_from_random_module:
  "generate_salt_from toy_lib
     \<lparr>random_module = sconst CHR ''A'', os_urandom = sconst CHR ''C''\<rparr>
   = Inr (toy_b64encode (replicate 16 CHR ''A''),
          \<lparr>random_module = sconst CHR ''A'', os_urandom = sconst CHR ''C''\<rparr>) \<and>
   generate_salt_from toy_lib
     \<lparr>random_module = sconst CHR ''B'', os_urandom = sconst CHR ''C''\<rparr>
   = Inr (toy_b64encode (replicate 16 CHR ''B''),
          \<lparr>random_module = sconst CHR ''B'', os_urandom = sconst CHR ''C''\<rparr>) \<and>
   toy_b64encode (replicate 16 CHR ''A'') \<noteq> toy_b64encode (replicate 16 CHR ''B'')"
  by (simp add: generate_salt_from_def toy_salt toy_salts_differ del: stake_siterate)


subsection \<open>A release needs a disclosure entry for every chosen leaf\<close>

lemma leaf_paths_not_Nil: "p \<in> set (leaf_paths d) \<Longrightarrow> p \<noteq> []"
  by (induction d rule: leaf_paths.induct) auto

lemma has_entry_empty: "p \<noteq> [] \<Longrightarrow> \<not> has_entry [] p"
  by (cases p) (simp_all add: has_entry_def)

lemma has_entry_Cons:
  "has_entry st (k # q) =
     (case map_of st k of
        None \<Rightarrow> False
      | Some (JObj st') \<Rightarrow> (if q = [] then False else has_entry st' q)
      | Some v \<Rightarrow> q = [])"
  by (cases q) (auto simp: has_entry_def split: option.splits json.splits)

lemma walk_release_error:
  "walk st d (required3 (\<lambda>k v raw. Inr raw)) u = Inl e \<Longrightarrow> e = StructureMismatch"
  by (induction st d "required3 (\<lambda>k v raw. Inr raw) :: unit leaf_fn" u rule: walk.induct)
     (auto simp: nested_structure_def leaf_structure_def required3_def
        split: sum.splits option.splits json.splits prod.splits)

lemma walk_release_entries:
  "walk st d (required3 (\<lambda>k v raw. Inr raw)) u = Inr (out, u') \<Longrightarrow>
   p \<in> set (leaf_paths d) \<Longrightarrow> has_entry st p"
proof (induction st d "required3 (\<lambda>k v raw. Inr raw) :: unit leaf_fn" u
       arbitrary: out u' p rule: walk.induct)
  case (1 st s)
  then show ?case by simp
next
  case (2 st k d rest s)
  from "2.prems"(1) obtain st' r s' out' where
    n: "nested_structure st k = Inr st'" and
    w1: "walk st' d (required3 (\<lambda>k v raw. Inr raw)) s = Inr (r, s')" and
    w2: "walk st rest (required3 (\<lambda>k v raw. Inr raw)) s' = Inr (out', u')"
    by (auto split: sum.splits prod.splits)
  from "2.prems"(2) consider q where "p = k # q" "q \<in> set (leaf_paths d)"
    | "p \<in> set (leaf_paths rest)" by auto
  then show ?case
  proof cases
    case 1
    have hq: "has_entry st' q" using "2.hyps"(1) [OF n w1 1(2)] .
    have qne: "q \<noteq> []" using 1(2) by (rule leaf_paths_not_Nil)
    from n hq qne show ?thesis
      by (auto simp: 1(1) has_entry_Cons nested_structure_def has_entry_empty
            split: option.splits json.splits)
  next
    case 2
    then show ?thesis using "2.hyps"(2) n w1 w2 by blast
  qed
qed (auto simp: has_entry_Cons leaf_structure_def required3_def
       split: sum.splits option.splits json.splits prod.splits)

text \<open>
  C5. Let the disclosure container decode to a disclosure tree. If the chosen claims
  have a leaf at some path at which the disclosure tree has no entry, the release fails
  with \<open>StructureMismatch\<close>: no payload and no token are returned.
\<close>

theorem release_needs_disclosure_entry:
  assumes "urlsafe_b64decode L (serialized_svc @ ''=='') = Inr b"
    and "loads L b = Some container"
    and "py_getitem container (SD_CLAIMS_KEY L) = Inr (JObj tree)"
    and "path \<in> set (leaf_paths disclosed_claims)"
    and "\<not> has_entry tree path"
  shows "create_release_jwt L nonce aud (JObj disclosed_claims) serialized_svc holder_key
           = Inl StructureMismatch"
proof (cases "walk tree disclosed_claims (required3 (\<lambda>k v raw. Inr raw)) ()")
  case (Inl e)
  then have "e = StructureMismatch" by (rule walk_release_error)
  with Inl assms(1-3) show ?thesis
    by (simp add: create_release_jwt_def walk_by_structure_def)
next
  case (Inr r)
  then obtain out u' where "walk tree disclosed_claims (required3 (\<lambda>k v raw. Inr raw)) ()
      = Inr (out, u')" by (cases r) auto
  from walk_release_entries [OF this assms(4)] assms(5) show ?thesis by simp
qed

theorem release_needs_disclosure_entry_witness:
  "create_release_jwt toy_lib ''n1'' ''v1''
     (JObj [(''address'', JObj [(''city'', JNull), (''zip'', JNull)])])
     (strip_eq (toy_b64encode (toy_dumps
        (JObj [(''sd_claims'', JObj [(''address'', JObj [(''city'', JStr ''raw'')])])]))))
     (Private ''H'')
   = Inl StructureMismatch"
proof -
  let ?c = "JObj [(''sd_claims'', JObj [(''address'', JObj [(''city'', JStr ''raw'')])])]"
  have 1: "urlsafe_b64decode toy_lib (strip_eq (toy_b64encode (toy_dumps ?c)) @ ''=='')
             = Inr (toy_dumps ?c)"
    by (simp only: toy_b64decode_encode toy_lib_def lib.simps)
  have 2: "loads toy_lib (toy_dumps ?c) = Some ?c"
    by (simp only: toy_loads_dumps toy_lib_def lib.simps)
  have 3: "py_getitem ?c (SD_CLAIMS_KEY toy_lib)
             = Inr (JObj [(''address'', JObj [(''city'', JStr ''raw'')])])"
    by (simp add: py_getitem_def toy_lib_def)
  have 4: "[''address'', ''zip''] \<in>
             set (leaf_paths [(''address'', JObj [(''city'', JNull), (''zip'', JNull)])])"
    by simp
  have 5: "\<not> has_entry [(''address'', JObj [(''city'', JStr ''raw'')])] [''address'', ''zip'']"
    by (simp add: has_entry_def)
  from release_needs_disclosure_entry [OF 1 2 3 4 5] show ?thesis .
qed


subsection \<open>The walk, entry by entry\<close>

lemma is_leaf_simps [simp]:
  "is_leaf JNull" "is_leaf (JBool b)" "is_leaf (JInt i)" "is_leaf (JStr x)" "is_leaf (JList xs)"
  "\<not> is_leaf (JObj d)"
  by (simp_all add: is_leaf_def)

lemma walk_leaf:
  "is_leaf v \<Longrightarrow>
   walk st ((k, v) # rest) fn s =
     (case leaf_structure st k of
        Inl e \<Rightarrow> Inl e
      | Inr a \<Rightarrow>
          (case fn k v a s of
             Inl e \<Rightarrow> Inl e
           | Inr (r, s') \<Rightarrow>
               (case walk st rest fn s' of
                  Inl e \<Rightarrow> Inl e
                | Inr (out, s'') \<Rightarrow> Inr ((k, r) # out, s''))))"
  by (cases v) (auto split: sum.splits prod.splits)

lemma walk_induct [case_names Nil Obj Leaf]:
  assumes "\<And>st fn s. P st [] fn s"
    and "\<And>st k d rest fn s.
           (\<And>st'. nested_structure st k = Inr st' \<Longrightarrow> P st' d fn s) \<Longrightarrow>
           (\<And>st' r s'. nested_structure st k = Inr st' \<Longrightarrow> walk st' d fn s = Inr (r, s') \<Longrightarrow>
              P st rest fn s') \<Longrightarrow>
           P st ((k, JObj d) # rest) fn s"
    and "\<And>st k v rest fn s.
           is_leaf v \<Longrightarrow>
           (\<And>a r s'. leaf_structure st k = Inr a \<Longrightarrow> fn k v a s = Inr (r, s') \<Longrightarrow>
              P st rest fn s') \<Longrightarrow>
           P st ((k, v) # rest) fn s"
  shows "P st d fn s"
proof (induction st d fn s rule: walk.induct)
  case (1 st fn s)
  show ?case by (rule assms(1))
next
  case (2 st k d rest fn s)
  show ?case by (rule assms(2)) (use 2 in auto)
qed (rule assms(3), simp, blast)+


lemma walk_keys: "walk st d fn s = Inr (out, s') \<Longrightarrow> map fst out = map fst d"
proof (induction st d fn s arbitrary: out s' rule: walk_induct)
  case (Nil st fn s)
  then show ?case by simp
next
  case (Obj st k d rest fn s)
  then show ?case by (auto split: sum.splits prod.splits)
next
  case (Leaf st k v rest fn s)
  then show ?case by (auto simp: walk_leaf split: sum.splits prod.splits)
qed

lemma wf_dict_Cons:
  "wf_json (JObj ((k, v) # d)) = (k \<notin> fst ` set d \<and> wf_json v \<and> wf_json (JObj d))"
  by auto

lemma wf_dict_entry: "wf_json (JObj d) \<Longrightarrow> (k, v) \<in> set d \<Longrightarrow> wf_json v"
  by force

lemma wf_nested_structure:
  assumes "wf_json (JObj st)" and "nested_structure st k = Inr st'"
  shows "wf_json (JObj st')"
proof (cases "map_of st k")
  case None
  with assms(2) show ?thesis by (simp add: nested_structure_def)
next
  case (Some x)
  then have "(k, x) \<in> set st" by (rule map_of_SomeD)
  with assms(1) have "wf_json x" by (rule wf_dict_entry)
  with assms(2) Some show ?thesis
    by (cases x) (simp_all add: nested_structure_def)
qed

lemma wf_leaf_structure:
  assumes "wf_json (JObj st)" and "leaf_structure st k = Inr (Some x)"
  shows "wf_json x"
proof -
  from assms(2) have "map_of st k = Some x"
    by (auto simp: leaf_structure_def split: option.splits json.splits)
  then have "(k, x) \<in> set st" by (rule map_of_SomeD)
  with assms(1) show ?thesis by (rule wf_dict_entry)
qed

lemma generate_salt_ok:
  "codec_ok L \<Longrightarrow> \<exists>salt. generate_salt L rng = Inr (salt, sdrop 16 rng)"
  by (simp add: codec_ok_def generate_salt_def b64_unpadded_def decode_ascii_def)

lemma salt_leaf_ok: "codec_ok L \<Longrightarrow> \<exists>salt rng'. salt_leaf L k v a rng = Inr (JStr salt, rng')"
  using generate_salt_ok [of L rng] by (auto simp: salt_leaf_def)

lemma salt_leaf_str: "salt_leaf L k v a rng = Inr (r, rng') \<Longrightarrow> \<exists>salt. r = JStr salt"
  by (auto simp: salt_leaf_def split: sum.splits prod.splits)

lemma hash_claim_ok:
  "codec_ok L \<Longrightarrow> \<exists>h. hash_claim L salt v b = Inr h"
  by (simp add: codec_ok_def hash_claim_def hash_raw_def b64_unpadded_def decode_ascii_def
        Let_def)

text \<open>The salt walk over a congruent structure succeeds and yields a well-formed tree.\<close>

lemma overlay_leaf:
  "is_leaf v \<Longrightarrow>
   overlay cs ((k, v) # rest) = ((\<exists>a. leaf_structure cs k = Inr a) \<and> overlay cs rest)"
  by (cases v) (auto simp: leaf_structure_def split: option.splits json.splits)

lemma overlay_empty: "overlay [] d"
  by (induction d rule: leaf_paths.induct) simp_all

lemma overlay_obj:
  "overlay cs ((k, JObj d) # rest) =
     ((\<exists>cs'. nested_structure cs k = Inr cs' \<and> overlay cs' d) \<and> overlay cs rest)"
  by (auto simp: nested_structure_def overlay_empty split: option.splits json.splits)

lemma walk_salts_ok:
  assumes "codec_ok L"
  shows "overlay cs d \<Longrightarrow> \<exists>S rng'. walk cs d (salt_leaf L) rng = Inr (S, rng')"
proof (induction cs d "salt_leaf L" rng rule: walk_induct)
  case (Nil st s)
  show ?case by simp
next
  case (Obj st k d rest s)
  from Obj.prems obtain st' where n: "nested_structure st k = Inr st'"
    and o1: "overlay st' d" and o2: "overlay st rest"
    by (auto simp only: overlay_obj)
  from Obj.hyps(1) [OF n o1] obtain r s' where
    w1: "walk st' d (salt_leaf L) s = Inr (r, s')" by blast
  from Obj.hyps(2) [OF n w1 o2] obtain out s'' where
    "walk st rest (salt_leaf L) s' = Inr (out, s'')" by blast
  with n w1 show ?case by simp
next
  case (Leaf st k v rest s)
  from Leaf.prems Leaf.hyps(1) obtain a where l: "leaf_structure st k = Inr a"
    and o2: "overlay st rest" by (auto simp: overlay_leaf)
  from salt_leaf_ok [OF assms] obtain salt s' where
    f: "salt_leaf L k v a s = Inr (JStr salt, s')" by blast
  from Leaf.hyps(2) [OF l f o2] obtain out s'' where
    "walk st rest (salt_leaf L) s' = Inr (out, s'')" by blast
  with l f Leaf.hyps(1) show ?case by (simp add: walk_leaf)
qed

lemma walk_salts_wf:
  "walk st d (salt_leaf L) rng = Inr (S, rng') \<Longrightarrow> wf_json (JObj d) \<Longrightarrow> wf_json (JObj S)"
proof (induction st d "salt_leaf L" rng arbitrary: S rng' rule: walk_induct)
  case (Nil st s)
  then show ?case by simp
next
  case (Obj st k d rest s)
  from Obj.prems(1) obtain st' r s' out' where
    n: "nested_structure st k = Inr st'" and
    w1: "walk st' d (salt_leaf L) s = Inr (r, s')" and
    w2: "walk st rest (salt_leaf L) s' = Inr (out', rng')" and
    S: "S = (k, JObj r) # out'"
    by (auto split: sum.splits prod.splits)
  from Obj.prems(2) have wd: "wf_json (JObj d)" and wr: "wf_json (JObj rest)"
    and kr: "k \<notin> fst ` set rest" by (simp_all add: wf_dict_Cons)
  have "wf_json (JObj r)" using Obj.hyps(1) [OF n w1 wd] .
  moreover have "wf_json (JObj out')" using Obj.hyps(2) [OF n w1 w2 wr] .
  moreover have "k \<notin> fst ` set out'"
    using walk_keys [OF w2] kr by (metis set_map)
  ultimately show ?case unfolding S wf_dict_Cons by simp
next
  case (Leaf st k v rest s)
  from Leaf.prems(1) Leaf.hyps(1) obtain a r s' out' where
    l: "leaf_structure st k = Inr a" and
    f: "salt_leaf L k v a s = Inr (r, s')" and
    w2: "walk st rest (salt_leaf L) s' = Inr (out', rng')" and
    S: "S = (k, r) # out'"
    by (auto simp: walk_leaf split: sum.splits prod.splits)
  from Leaf.prems(2) have wr: "wf_json (JObj rest)"
    and kr: "k \<notin> fst ` set rest" by (simp_all add: wf_dict_Cons)
  have "wf_json r" using salt_leaf_str [OF f] by auto
  moreover have "wf_json (JObj out')" using Leaf.hyps(2) [OF l f w2 wr] .
  moreover have "k \<notin> fst ` set out'"
    using walk_keys [OF w2] kr by (metis set_map)
  ultimately show ?case unfolding S wf_dict_Cons by simp
qed


lemma dict_induct [case_names Nil Obj Leaf]:
  assumes "P []"
    and "\<And>k d rest. P d \<Longrightarrow> P rest \<Longrightarrow> P ((k, JObj d) # rest)"
    and "\<And>k v rest. is_leaf v \<Longrightarrow> P rest \<Longrightarrow> P ((k, v) # rest)"
  shows "P D"
proof (induction D rule: leaf_paths.induct)
  case 1
  show ?case by (rule assms(1))
next
  case (2 k d rest)
  then show ?case by (rule assms(2))
qed (rule assms(3), simp, assumption)+

lemma chosen_leaf:
  "is_leaf v \<Longrightarrow>
   chosen ((k, v) # rest) C =
     ((\<exists>x. map_of C k = Some x \<and> is_leaf x) \<and> chosen rest C)"
  by (cases v) (auto simp: is_leaf_def split: option.splits json.splits)

lemma chosen_obj:
  "chosen ((k, JObj d) # rest) C =
     ((\<exists>c. map_of C k = Some (JObj c) \<and> chosen d c) \<and> chosen rest C)"
  by (auto split: option.splits json.splits)

lemma select_leaf:
  "is_leaf v \<Longrightarrow> map_of C k = Some x \<Longrightarrow> select C ((k, v) # rest) = (k, x) # select C rest"
  by (cases v) simp_all

lemma opens_leaf:
  "is_leaf v \<Longrightarrow> opens L CT DT ((k, v) # rest) = (opens_at L CT DT k v \<and> opens L CT DT rest)"
  by (cases v) simp_all

lemma opens_obj:
  "opens L CT DT ((k, JObj c) # rest) =
     ((\<exists>ct dt. sub_dict CT k = Some ct \<and> sub_dict DT k = Some dt \<and> opens L ct dt c) \<and>
      opens L CT DT rest)"
  by (auto split: option.splits)

lemma sub_dict_Cons: "k \<noteq> k' \<Longrightarrow> sub_dict ((k, a) # T) k' = sub_dict T k'"
  by (simp add: sub_dict_def)

lemma sub_dict_nested: "sub_dict T k = Some t \<Longrightarrow> nested_structure T k = Inr t"
  by (auto simp: sub_dict_def nested_structure_def split: option.splits json.splits)

lemma opens_frame:
  "k \<notin> fst ` set X \<Longrightarrow> opens L ((k, a) # CT) ((k, b) # DT) X = opens L CT DT X"
proof (induction X rule: dict_induct)
  case Nil
  show ?case by simp
next
  case (Obj k' d rest)
  from Obj.prems have "k \<noteq> k'" and "k \<notin> fst ` set rest" by auto
  with Obj.IH(2) show ?case
    by (simp add: opens_obj sub_dict_Cons del: opens.simps)
next
  case (Leaf k' v rest)
  from Leaf.prems have "k \<noteq> k'" and "k \<notin> fst ` set rest" by auto
  with Leaf.IH Leaf.hyps show ?case
    by (simp add: opens_leaf opens_at_def)
qed

lemma opens_lookup_leaf:
  "opens L CT DT C \<Longrightarrow> map_of C k = Some x \<Longrightarrow> is_leaf x \<Longrightarrow> opens_at L CT DT k x"
proof (induction C rule: dict_induct)
  case Nil
  then show ?case by simp
next
  case (Obj k' d rest)
  from Obj.prems(1) have "opens L CT DT rest" by (simp only: opens_obj)
  with Obj.prems(2,3) Obj.IH(2) show ?case by (cases "k' = k") auto
next
  case (Leaf k' v rest)
  from Leaf.prems(1) Leaf.hyps have "opens_at L CT DT k' v" "opens L CT DT rest"
    by (simp_all add: opens_leaf)
  with Leaf.prems(2,3) Leaf.IH show ?case by (cases "k' = k") auto
qed

lemma opens_lookup_obj:
  "opens L CT DT C \<Longrightarrow> map_of C k = Some (JObj c) \<Longrightarrow>
   \<exists>ct dt. sub_dict CT k = Some ct \<and> sub_dict DT k = Some dt \<and> opens L ct dt c"
proof (induction C rule: dict_induct)
  case Nil
  then show ?case by simp
next
  case (Obj k' d rest)
  from Obj.prems(1) have
    h: "\<exists>ct dt. sub_dict CT k' = Some ct \<and> sub_dict DT k' = Some dt \<and> opens L ct dt d"
    and r: "opens L CT DT rest" by (simp_all only: opens_obj)
  show ?case
  proof (cases "k' = k")
    case True
    with Obj.prems(2) have "d = c" by simp
    with h True show ?thesis by simp
  next
    case False
    with Obj.prems(2) have "map_of rest k = Some (JObj c)" by simp
    with r show ?thesis by (rule Obj.IH(2))
  qed
next
  case (Leaf k' v rest)
  from Leaf.prems(1) Leaf.hyps have r: "opens L CT DT rest" by (simp add: opens_leaf)
  from Leaf.prems(2) Leaf.hyps have "k' \<noteq> k" by (cases "k' = k") auto
  with Leaf.prems(2) have "map_of rest k = Some (JObj c)" by simp
  with r show ?case by (rule Leaf.IH)
qed


subsection \<open>Issuance: commitments and disclosures\<close>

lemma required3_Some: "required3 f k v (Some x) u = (case f k v x of Inl e \<Rightarrow> Inl e | Inr r \<Rightarrow> Inr (r, u))"
  by (simp add: required3_def split: sum.splits)

lemma required3_Inr:
  "required3 f k v a u = Inr (r, u') \<Longrightarrow> \<exists>x. a = Some x \<and> f k v x = Inr r"
  by (auto simp: required3_def split: option.splits sum.splits)

lemma leaf_structure_Some:
  "map_of st k = Some x \<Longrightarrow> is_leaf x \<Longrightarrow> leaf_structure st k = Inr (Some x)"
  by (cases x) (simp_all add: leaf_structure_def)

lemma nested_structure_Some:
  "map_of st k = Some (JObj t) \<Longrightarrow> nested_structure st k = Inr t"
  by (simp add: nested_structure_def)

text \<open>
  A leaf function that succeeds on every salt walks the claims without failure when
  the structure is the tree of salts drawn for these claims.
\<close>

lemma walk_with_salts_ok:
  assumes total: "\<And>k v salt. \<exists>r. f k v (JStr salt) = Inr r"
  shows "walk st X (salt_leaf L) rng = Inr (SX, rng') \<Longrightarrow> wf_json (JObj X) \<Longrightarrow>
         (\<And>k. k \<in> fst ` set X \<Longrightarrow> map_of S k = map_of SX k) \<Longrightarrow>
         \<exists>out. walk S X (required3 f) () = Inr (out, ())"
proof (induction st X "salt_leaf L" rng arbitrary: SX rng' S rule: walk_induct)
  case (Nil st s)
  show ?case by simp
next
  case (Obj st k d rest s)
  from Obj.prems(1) obtain st' sc s' SX' where
    n: "nested_structure st k = Inr st'" and
    w1: "walk st' d (salt_leaf L) s = Inr (sc, s')" and
    w2: "walk st rest (salt_leaf L) s' = Inr (SX', rng')" and
    SX: "SX = (k, JObj sc) # SX'"
    by (auto split: sum.splits prod.splits)
  from Obj.prems(2) have wd: "wf_json (JObj d)" and wr: "wf_json (JObj rest)"
    and kr: "k \<notin> fst ` set rest" by (simp_all add: wf_dict_Cons)
  have "map_of S k = Some (JObj sc)" using Obj.prems(3) [of k] by (simp add: SX)
  then have nS: "nested_structure S k = Inr sc" by (rule nested_structure_Some)
  from Obj.hyps(1) [OF n w1 wd, of sc] obtain o1 where
    o1: "walk sc d (required3 f) () = Inr (o1, ())" by blast
  have "\<And>k'. k' \<in> fst ` set rest \<Longrightarrow> map_of S k' = map_of SX' k'"
  proof -
    fix k' assume k': "k' \<in> fst ` set rest"
    with kr have "k' \<noteq> k" by auto
    with Obj.prems(3) [of k'] k' show "map_of S k' = map_of SX' k'" by (simp add: SX)
  qed
  from Obj.hyps(2) [OF n w1 w2 wr this] obtain o2 where
    o2: "walk S rest (required3 f) () = Inr (o2, ())" by blast
  from nS o1 o2 show ?case by simp
next
  case (Leaf st k v rest s)
  from Leaf.prems(1) Leaf.hyps(1) obtain a r s' SX' where
    l: "leaf_structure st k = Inr a" and
    f: "salt_leaf L k v a s = Inr (r, s')" and
    w2: "walk st rest (salt_leaf L) s' = Inr (SX', rng')" and
    SX: "SX = (k, r) # SX'"
    by (auto simp: walk_leaf split: sum.splits prod.splits)
  from salt_leaf_str [OF f] obtain salt where r: "r = JStr salt" by blast
  from Leaf.prems(2) have wr: "wf_json (JObj rest)"
    and kr: "k \<notin> fst ` set rest" by (simp_all add: wf_dict_Cons)
  have "map_of S k = Some (JStr salt)" using Leaf.prems(3) [of k] by (simp add: SX r)
  then have lS: "leaf_structure S k = Inr (Some (JStr salt))"
    by (rule leaf_structure_Some) simp
  from total obtain r' where r': "f k v (JStr salt) = Inr r'" by blast
  have "\<And>k'. k' \<in> fst ` set rest \<Longrightarrow> map_of S k' = map_of SX' k'"
  proof -
    fix k' assume k': "k' \<in> fst ` set rest"
    with kr have "k' \<noteq> k" by auto
    with Leaf.prems(3) [of k'] k' show "map_of S k' = map_of SX' k'" by (simp add: SX)
  qed
  from Leaf.hyps(2) [OF l f w2 wr this] obtain o2 where
    o2: "walk S rest (required3 f) () = Inr (o2, ())" by blast
  from lS r' o2 Leaf.hyps(1) show ?case by (simp add: walk_leaf required3_Some)
qed

text \<open>A walk whose leaf function returns strings yields a well-formed tree.\<close>

lemma walk_strings_wf:
  assumes str: "\<And>k v x r. f k v x = Inr r \<Longrightarrow> \<exists>t. r = JStr t"
  shows "walk st X (required3 f) u = Inr (out, u') \<Longrightarrow> wf_json (JObj X) \<Longrightarrow>
         wf_json (JObj out)"
proof (induction st X "required3 f" u arbitrary: out u' rule: walk_induct)
  case (Nil st s)
  then show ?case by simp
next
  case (Obj st k d rest s)
  from Obj.prems(1) obtain st' r s' out' where
    n: "nested_structure st k = Inr st'" and
    w1: "walk st' d (required3 f) s = Inr (r, s')" and
    w2: "walk st rest (required3 f) s' = Inr (out', u')" and
    out: "out = (k, JObj r) # out'"
    by (auto split: sum.splits prod.splits)
  from Obj.prems(2) have wd: "wf_json (JObj d)" and wr: "wf_json (JObj rest)"
    and kr: "k \<notin> fst ` set rest" by (simp_all add: wf_dict_Cons)
  have "wf_json (JObj r)" using Obj.hyps(1) [OF n w1 wd] .
  moreover have "wf_json (JObj out')" using Obj.hyps(2) [OF n w1 w2 wr] .
  moreover have "k \<notin> fst ` set out'" using walk_keys [OF w2] kr by (metis set_map)
  ultimately show ?case unfolding out wf_dict_Cons by simp
next
  case (Leaf st k v rest s)
  from Leaf.prems(1) Leaf.hyps(1) obtain a r s' out' where
    l: "leaf_structure st k = Inr a" and
    f: "required3 f k v a s = Inr (r, s')" and
    w2: "walk st rest (required3 f) s' = Inr (out', u')" and
    out: "out = (k, r) # out'"
    by (auto simp: walk_leaf split: sum.splits prod.splits)
  from Leaf.prems(2) have wr: "wf_json (JObj rest)"
    and kr: "k \<notin> fst ` set rest" by (simp_all add: wf_dict_Cons)
  from required3_Inr [OF f] str have "wf_json r" by fastforce
  moreover have "wf_json (JObj out')" using Leaf.hyps(2) [OF l f w2 wr] .
  moreover have "k \<notin> fst ` set out'" using walk_keys [OF w2] kr by (metis set_map)
  ultimately show ?case unfolding out wf_dict_Cons by simp
qed


lemma create_sd_claim_entry_str: "create_sd_claim_entry L k v x = Inr r \<Longrightarrow> \<exists>t. r = JStr t"
  by (auto simp: create_sd_claim_entry_def split: sum.splits)

lemma create_svc_entry_str: "create_svc_entry L k v x = Inr r \<Longrightarrow> \<exists>t. r = JStr t"
  by (auto simp: create_svc_entry_def split: sum.splits)

lemma create_sd_claim_entry_ok: "codec_ok L \<Longrightarrow> \<exists>r. create_sd_claim_entry L k v x = Inr r"
  using hash_claim_ok [of L x v False] by (auto simp: create_sd_claim_entry_def)

lemma create_svc_entry_ok: "\<exists>r. create_svc_entry L k v x = Inr r"
  by (simp add: create_svc_entry_def hash_claim_def)

lemma entries_open:
  assumes "codec_ok L" and "wf_json x" and "wf_json v"
    and "create_sd_claim_entry L k v x = Inr c" and "create_svc_entry L k v x = Inr d"
  shows "\<exists>h raw. c = JStr h \<and> d = JStr raw \<and> hash_raw L raw = Inr h \<and>
           loads L raw = Some (JList [x, v])"
proof -
  have "wf_json (JList [x, v])" using assms(2,3) by simp
  with assms(1) have "loads L (dumps L (JList [x, v])) = Some (JList [x, v])"
    by (simp add: codec_ok_def)
  with assms(4,5) show ?thesis
    by (auto simp: create_sd_claim_entry_def create_svc_entry_def hash_claim_def Let_def
          split: sum.splits)
qed

text \<open>
  After an issuance, the disclosure tree opens the commitment tree at every leaf of the
  claims.
\<close>

lemma issue_opens:
  assumes ok: "codec_ok L"
  shows "walk S X (required3 (create_sd_claim_entry L)) u = Inr (CT, u1) \<Longrightarrow>
         walk S X (required3 (create_svc_entry L)) u = Inr (DT, u2) \<Longrightarrow>
         wf_json (JObj X) \<Longrightarrow> wf_json (JObj S) \<Longrightarrow> opens L CT DT X"
proof (induction S X "required3 (create_sd_claim_entry L)" u arbitrary: CT DT u1 u2
       rule: walk_induct)
  case (Nil st s)
  show ?case by simp
next
  case (Obj st k d rest s)
  from Obj.prems(1) obtain st' ct s' CT' where
    n: "nested_structure st k = Inr st'" and
    c1: "walk st' d (required3 (create_sd_claim_entry L)) s = Inr (ct, s')" and
    c2: "walk st rest (required3 (create_sd_claim_entry L)) s' = Inr (CT', u1)" and
    CT: "CT = (k, JObj ct) # CT'"
    by (auto split: sum.splits prod.splits)
  from Obj.prems(2) n obtain dt s'' DT' where
    d1: "walk st' d (required3 (create_svc_entry L)) s = Inr (dt, s'')" and
    d2: "walk st rest (required3 (create_svc_entry L)) s'' = Inr (DT', u2)" and
    DT: "DT = (k, JObj dt) # DT'"
    by (auto split: sum.splits prod.splits)
  from Obj.prems(3) have wd: "wf_json (JObj d)" and wr: "wf_json (JObj rest)"
    and kr: "k \<notin> fst ` set rest" by (simp_all add: wf_dict_Cons)
  have ws: "wf_json (JObj st')" using Obj.prems(4) n by (rule wf_nested_structure)
  have 1: "opens L ct dt d" using Obj.hyps(1) [OF n c1 d1 wd ws] .
  have "s'' = s'" by simp
  with d2 have d2': "walk st rest (required3 (create_svc_entry L)) s' = Inr (DT', u2)" by simp
  have 2: "opens L CT' DT' rest" using Obj.hyps(2) [OF n c1 c2 d2' wr Obj.prems(4)] .
  have "opens L CT DT rest" unfolding CT DT using 2 kr by (simp add: opens_frame)
  moreover have "sub_dict CT k = Some ct" "sub_dict DT k = Some dt"
    by (simp_all add: CT DT sub_dict_def)
  ultimately show ?case using 1 by (simp add: opens_obj del: opens.simps)
next
  case (Leaf st k v rest s)
  from Leaf.prems(1) Leaf.hyps(1) obtain a c s' CT' where
    l: "leaf_structure st k = Inr a" and
    fc: "required3 (create_sd_claim_entry L) k v a s = Inr (c, s')" and
    c2: "walk st rest (required3 (create_sd_claim_entry L)) s' = Inr (CT', u1)" and
    CT: "CT = (k, c) # CT'"
    by (auto simp: walk_leaf split: sum.splits prod.splits)
  from Leaf.prems(2) Leaf.hyps(1) l obtain e s'' DT' where
    fd: "required3 (create_svc_entry L) k v a s = Inr (e, s'')" and
    d2: "walk st rest (required3 (create_svc_entry L)) s'' = Inr (DT', u2)" and
    DT: "DT = (k, e) # DT'"
    by (auto simp: walk_leaf split: sum.splits prod.splits)
  from Leaf.prems(3) have wv: "wf_json v" and wr: "wf_json (JObj rest)"
    and kr: "k \<notin> fst ` set rest" by (simp_all add: wf_dict_Cons)
  from required3_Inr [OF fc] obtain x where a: "a = Some x"
    and ec: "create_sd_claim_entry L k v x = Inr c" by blast
  from required3_Inr [OF fd] a have ed: "create_svc_entry L k v x = Inr e" by simp
  have wx: "wf_json x" using Leaf.prems(4) l unfolding a by (rule wf_leaf_structure)
  from entries_open [OF ok wx wv ec ed] obtain h raw where
    o: "c = JStr h" "e = JStr raw" "hash_raw L raw = Inr h"
       "loads L raw = Some (JList [x, v])" by blast
  have "s'' = s'" by simp
  with d2 have d2': "walk st rest (required3 (create_svc_entry L)) s' = Inr (DT', u2)" by simp
  have 2: "opens L CT' DT' rest" using Leaf.hyps(2) [OF l fc c2 d2' wr Leaf.prems(4)] .
  have "opens L CT DT rest" unfolding CT DT using 2 kr by (simp add: opens_frame)
  moreover have "opens_at L CT DT k v" using o by (auto simp: opens_at_def CT DT)
  ultimately show ?case using Leaf.hyps(1) by (simp add: opens_leaf)
qed


subsection \<open>Release and verification of the chosen claims\<close>

lemma check_claim_opened:
  assumes "hash_raw L raw = Inr h" and "loads L raw = Some (JList [salt, x])"
  shows "check_claim L k (JStr raw) (JStr h) = Inr x"
proof -
  have "is_ascii h" using assms(1) by (rule hash_raw_ascii)
  with assms show ?thesis by (simp add: check_claim_def compare_digest_def)
qed

lemma release_verify:
  "opens L CT DT C \<Longrightarrow> chosen D C \<Longrightarrow> wf_json (JObj D) \<Longrightarrow>
   \<exists>R. walk DT D (required3 (\<lambda>k v raw. Inr raw)) () = Inr (R, ()) \<and>
       walk CT R (required3 (check_claim L)) () = Inr (select C D, ()) \<and>
       wf_json (JObj R)"
proof (induction D arbitrary: C CT DT rule: dict_induct)
  case Nil
  show ?case by simp
next
  case (Obj k d rest)
  from Obj.prems(2) obtain c where
    c: "map_of C k = Some (JObj c)" and cd: "chosen d c" and cr: "chosen rest C"
    by (auto simp only: chosen_obj)
  from Obj.prems(3) have wd: "wf_json (JObj d)" and wr: "wf_json (JObj rest)"
    and kr: "k \<notin> fst ` set rest" by (simp_all add: wf_dict_Cons)
  from opens_lookup_obj [OF Obj.prems(1) c] obtain ct dt where
    ct: "sub_dict CT k = Some ct" and dt: "sub_dict DT k = Some dt" and o: "opens L ct dt c"
    by blast
  from Obj.IH(1) [OF o cd wd] obtain r where
    r1: "walk dt d (required3 (\<lambda>k v raw. Inr raw)) () = Inr (r, ())" and
    r2: "walk ct r (required3 (check_claim L)) () = Inr (select c d, ())" and
    r3: "wf_json (JObj r)" by blast
  from Obj.IH(2) [OF Obj.prems(1) cr wr] obtain R' where
    R1: "walk DT rest (required3 (\<lambda>k v raw. Inr raw)) () = Inr (R', ())" and
    R2: "walk CT R' (required3 (check_claim L)) () = Inr (select C rest, ())" and
    R3: "wf_json (JObj R')" by blast
  have nd: "nested_structure DT k = Inr dt" using dt by (rule sub_dict_nested)
  have nc: "nested_structure CT k = Inr ct" using ct by (rule sub_dict_nested)
  have kR: "k \<notin> fst ` set R'" using walk_keys [OF R1] kr by (metis set_map)
  have "walk DT ((k, JObj d) # rest) (required3 (\<lambda>k v raw. Inr raw)) ()
          = Inr ((k, JObj r) # R', ())"
    using nd r1 R1 by simp
  moreover have "walk CT ((k, JObj r) # R') (required3 (check_claim L)) ()
          = Inr (select C ((k, JObj d) # rest), ())"
    using nc r2 R2 c by simp
  moreover have "wf_json (JObj ((k, JObj r) # R'))"
    using r3 R3 kR unfolding wf_dict_Cons by simp
  ultimately show ?case by blast
next
  case (Leaf k v rest)
  from Leaf.prems(2) Leaf.hyps obtain x where
    x: "map_of C k = Some x" and lx: "is_leaf x" and cr: "chosen rest C"
    by (auto simp: chosen_leaf)
  from Leaf.prems(3) have wr: "wf_json (JObj rest)"
    and kr: "k \<notin> fst ` set rest" by (simp_all add: wf_dict_Cons)
  from opens_lookup_leaf [OF Leaf.prems(1) x lx] obtain h raw salt where
    h: "map_of CT k = Some (JStr h)" and raw: "map_of DT k = Some (JStr raw)" and
    hr: "hash_raw L raw = Inr h" and ld: "loads L raw = Some (JList [salt, x])"
    by (auto simp: opens_at_def)
  from Leaf.IH [OF Leaf.prems(1) cr wr] obtain R' where
    R1: "walk DT rest (required3 (\<lambda>k v raw. Inr raw)) () = Inr (R', ())" and
    R2: "walk CT R' (required3 (check_claim L)) () = Inr (select C rest, ())" and
    R3: "wf_json (JObj R')" by blast
  have ld': "leaf_structure DT k = Inr (Some (JStr raw))"
    using raw by (rule leaf_structure_Some) simp
  have lc: "leaf_structure CT k = Inr (Some (JStr h))"
    using h by (rule leaf_structure_Some) simp
  have kR: "k \<notin> fst ` set R'" using walk_keys [OF R1] kr by (metis set_map)
  have "walk DT ((k, v) # rest) (required3 (\<lambda>k v raw. Inr raw)) ()
          = Inr ((k, JStr raw) # R', ())"
    using ld' R1 Leaf.hyps by (simp add: walk_leaf required3_Some)
  moreover have "walk CT ((k, JStr raw) # R') (required3 (check_claim L)) ()
          = Inr (select C ((k, v) # rest), ())"
    using lc R2 check_claim_opened [OF hr ld] select_leaf [OF Leaf.hyps x]
    by (simp add: walk_leaf required3_Some)
  moreover have "wf_json (JObj ((k, JStr raw) # R'))"
    using R3 kR unfolding wf_dict_Cons by simp
  ultimately show ?case by blast
qed


subsection \<open>Payloads\<close>

lemma set_update_subset: "set (AList.update k v al) \<subseteq> insert (k, v) (set al)"
  by (induction al) auto

lemma foldl_update_wf:
  "distinct (map fst d) \<Longrightarrow> \<forall>kv \<in> set d \<union> set kvs. wf_json (snd kv) \<Longrightarrow>
   wf_json (JObj (foldl (\<lambda>d (k, v). AList.update k v d) d kvs))"
proof (induction kvs arbitrary: d)
  case Nil
  then show ?case by simp
next
  case (Cons kv kvs)
  obtain k v where kv: "kv = (k, v)" by (cases kv)
  have "distinct (map fst (AList.update k v d))"
    using Cons.prems(1) by (rule distinct_update)
  moreover have "\<forall>x \<in> set (AList.update k v d) \<union> set kvs. wf_json (snd x)"
    using Cons.prems(2) set_update_subset [of k v d] by (auto simp: kv)
  ultimately show ?case using Cons.IH [of "AList.update k v d"] by (simp add: kv)
qed

lemma wf_dict_of: "\<forall>kv \<in> set kvs. wf_json (snd kv) \<Longrightarrow> wf_json (JObj (dict_of kvs))"
  using foldl_update_wf [of "[]" kvs] by (simp add: dict_of_def)

lemma getitem_dict_of:
  "py_getitem (JObj (dict_of kvs)) k =
     (case map_of (rev kvs) k of None \<Rightarrow> Inl (KeyError k) | Some x \<Rightarrow> Inr x)"
  by (simp add: py_getitem_def map_of_dict_of)

lemma contains_dict_of:
  "py_contains k (JObj (dict_of kvs)) = Inr (map_of (rev kvs) k \<noteq> None)"
  by (simp add: py_contains_def map_of_dict_of)

lemma split_combined:
  assumes "length (split_dot a) = 3" and "length (split_dot b) = 3"
  shows "length (split_dot (combined a b)) = 6"
    and "join_dot (take 3 (split_dot (combined a b))) = a"
    and "join_dot (drop 3 (split_dot (combined a b))) = b"
  using assms by (simp_all add: combined_def split_dot_append join_dot_split_dot)


subsection \<open>The two tokens of a presentation\<close>

lemma verify_sd_jwt_ok:
  assumes "jws_deserialize L t = Inr w"
    and "jws_verify L w issuer_public_key (DEFAULT_SIGNIGN_ALG L) = Inr w'"
    and "jws_payload L w' = Inr payload_text"
    and "loads L payload_text = Some (JObj (dict_of
           [(''iss'', JStr issuer), (''sub_jwk'', j), (''iat'', i), (''exp'', e),
            (SD_CLAIMS_KEY L, CT)]))"
    and "SD_CLAIMS_KEY L \<noteq> ''iss''" and "SD_CLAIMS_KEY L \<noteq> ''sub_jwk''"
  shows "verify_sd_jwt L t issuer_public_key issuer = Inr (CT, j)"
  using assms
  by (simp add: verify_sd_jwt_def getitem_dict_of contains_dict_of)

lemma check_sub_jwk_ok:
  assumes "truthy j \<longrightarrow> (\<exists>k. jwk_from_json L (dumps L j) = Inr k \<and> jwk_eq L pk k)"
  shows "check_sub_jwk L (Some pk) j = Inr ()"
  using assms by (auto simp: check_sub_jwk_def)

lemma check_aud_nonce_ok:
  assumes "SD_CLAIMS_KEY L \<noteq> ''nonce''" and "SD_CLAIMS_KEY L \<noteq> ''aud''"
  shows "check_aud_nonce (Some pk)
           (JObj (dict_of [(''nonce'', JStr nonce), (''aud'', JStr aud), (SD_CLAIMS_KEY L, R)]))
           (Some aud) (Some nonce) = Inr ()"
  using assms by (simp add: check_aud_nonce_def getitem_dict_of ne_str_def)

lemma verify_sd_jwt_release_ok:
  assumes "jws_deserialize L t = Inr w"
    and "truthy j \<longrightarrow> (\<exists>k. jwk_from_json L (dumps L j) = Inr k \<and> jwk_eq L pk k)"
    and "jws_verify L w pk (DEFAULT_SIGNIGN_ALG L) = Inr w'"
    and "jws_payload L w' = Inr payload_text"
    and "loads L payload_text = Some (JObj (dict_of
           [(''nonce'', JStr nonce), (''aud'', JStr aud), (SD_CLAIMS_KEY L, R)]))"
    and "SD_CLAIMS_KEY L \<noteq> ''nonce''" and "SD_CLAIMS_KEY L \<noteq> ''aud''"
  shows "verify_sd_jwt_release L t (Some pk) (Some aud) (Some nonce) j = Inr R"
  using assms(1,3,4,5)
  by (simp add: verify_sd_jwt_release_def check_sub_jwk_ok [OF assms(2)]
        check_aud_nonce_ok [OF assms(6,7)] check_release_signature_def
        getitem_dict_of contains_dict_of)


subsection \<open>Round trip\<close>

text \<open>
  The stages of a round trip: the issuance and the release succeed, each token has
  three segments, the SD-JWT verifies under the issuer key, the release token parses
  and verifies under the holder key, and the walk of the released claims over the
  commitments yields the chosen part of the claims.
\<close>

lemma presentation_stages:
  assumes ok: "codec_ok L"
    and ik: "signs L issuer_key issuer_public_key"
    and hk: "signs L holder_key holder_public_key"
    and ex: "exports L holder_key holder_public_key"
    and key: "SD_CLAIMS_KEY L \<notin> {''iss'', ''sub_jwk'', ''nonce'', ''aud''}"
    and wfC: "wf_json (JObj C)" and wfD: "wf_json (JObj D)"
    and cs: "overlay cs C"
    and ch: "chosen D C"
  shows "\<exists>payload sd_jwt svc_payload svc rng' release_payload release CT j R w.
           create_sd_jwt_and_svc L now rng (JObj C) issuer issuer_key holder_key (JObj cs)
             iat exp = Inr ((payload, sd_jwt, svc_payload, svc), rng') \<and>
           create_release_jwt L nonce aud (JObj D) svc holder_key
             = Inr (release_payload, release) \<and>
           length (split_dot sd_jwt) = 3 \<and> length (split_dot release) = 3 \<and>
           verify_sd_jwt L sd_jwt issuer_public_key issuer = Inr (JObj CT, j) \<and>
           jws_deserialize L release = Inr w \<and>
           verify_sd_jwt_release L release (Some holder_public_key) (Some aud) (Some nonce) j
             = Inr (JObj R) \<and>
           walk_by_structure (JObj CT) (JObj R) (required3 (check_claim L)) ()
             = Inr (JObj (select C D), ())"
proof -
  let ?K = "SD_CLAIMS_KEY L"
  let ?A = "DEFAULT_SIGNIGN_ALG L"
  let ?fC = "required3 (create_sd_claim_entry L)"
  let ?fS = "required3 (create_svc_entry L)"
  let ?fR = "required3 (\<lambda>k v raw. Inr raw) :: unit leaf_fn"
  let ?fV = "required3 (check_claim L)"
  from key have k1: "?K \<noteq> ''iss''" and k2: "?K \<noteq> ''sub_jwk''"
    and k3: "?K \<noteq> ''nonce''" and k4: "?K \<noteq> ''aud''" by auto
  \<comment> \<open>issuance\<close>
  from walk_salts_ok [OF ok cs] obtain S rng' where
    s: "walk cs C (salt_leaf L) rng = Inr (S, rng')" by blast
  have wS: "wf_json (JObj S)" using s wfC by (rule walk_salts_wf)
  from walk_with_salts_ok [of "create_sd_claim_entry L", OF create_sd_claim_entry_ok [OF ok] s wfC]
  obtain CT where c: "walk S C ?fC () = Inr (CT, ())" by blast
  from walk_with_salts_ok [of "create_svc_entry L", OF create_svc_entry_ok s wfC]
  obtain DT where d: "walk S C ?fS () = Inr (DT, ())" by blast
  have op: "opens L CT DT C" using ok c d wfC wS by (rule issue_opens)
  have wCT: "wf_json (JObj CT)"
    using create_sd_claim_entry_str c wfC by (rule walk_strings_wf)
  have wDT: "wf_json (JObj DT)"
    using create_svc_entry_str d wfC by (rule walk_strings_wf)
  from ex obtain j where j: "jwk_export_public L holder_key = Inr j" and wj: "wf_json j"
    and tj: "truthy j \<longrightarrow> (\<exists>k. jwk_from_json L (dumps L j) = Inr k \<and> jwk_eq L holder_public_key k)"
    unfolding exports_def by blast
  let ?i = "or_int iat now"
  let ?e = "or_int exp (?i + DEFAULT_EXP_MINS * 60)"
  let ?P = "JObj (dict_of [(''iss'', JStr issuer), (''sub_jwk'', j), (''iat'', JInt ?i),
              (''exp'', JInt ?e), (?K, JObj CT)])"
  have wP: "wf_json ?P" using wj wCT by (intro wf_dict_of) simp
  from ik [unfolded signs_def, rule_format,
           of "dumps L ?P" ?A "dumps L (JObj (dict_of [(''alg'', JStr ?A)]))"]
  obtain t w w' where
    t: "sign_compact L ?P issuer_key = Inr t" and t3: "length (split_dot t) = 3" and
    tw: "jws_deserialize L t = Inr w" and
    tv: "jws_verify L w issuer_public_key ?A = Inr w'" and
    tp: "jws_payload L w' = Inr (dumps L ?P)"
    unfolding sign_compact_def by blast
  let ?SP = "JObj (dict_of [(?K, JObj DT)])"
  have wSP: "wf_json ?SP" using wDT by (intro wf_dict_of) simp
  let ?svc = "strip_eq (urlsafe_b64encode L (dumps_indent L 4 ?SP))"
  have svc: "b64_unpadded L (dumps_indent L 4 ?SP) = Inr ?svc"
    using ok by (simp add: b64_unpadded_def decode_ascii_def codec_ok_def)
  have issue: "create_sd_jwt_and_svc L now rng (JObj C) issuer issuer_key holder_key (JObj cs)
                 iat exp = Inr ((?P, t, ?SP, ?svc), rng')"
    by (simp add: create_sd_jwt_and_svc_def walk_by_structure_def s c d j t svc Let_def)
  \<comment> \<open>release\<close>
  have r1: "urlsafe_b64decode L (?svc @ ''=='') = Inr (dumps_indent L 4 ?SP)"
    using ok by (simp add: codec_ok_def)
  have r2: "loads L (dumps_indent L 4 ?SP) = Some ?SP"
    using ok wSP unfolding codec_ok_def by blast
  have r3: "py_getitem ?SP ?K = Inr (JObj DT)"
    by (simp add: getitem_dict_of)
  from release_verify [OF op ch wfD] obtain R where
    R1: "walk DT D ?fR () = Inr (R, ())" and
    R2: "walk CT R ?fV () = Inr (select C D, ())" and
    wR: "wf_json (JObj R)" by blast
  let ?RP = "JObj (dict_of [(''nonce'', JStr nonce), (''aud'', JStr aud), (?K, JObj R)])"
  have wRP: "wf_json ?RP" using wR by (intro wf_dict_of) simp
  from hk [unfolded signs_def, rule_format,
           of "dumps L ?RP" ?A "dumps L (JObj (dict_of [(''alg'', JStr ?A)]))"]
  obtain rel v v' where
    rel: "sign_compact L ?RP holder_key = Inr rel" and rel3: "length (split_dot rel) = 3" and
    rw: "jws_deserialize L rel = Inr v" and
    rv: "jws_verify L v holder_public_key ?A = Inr v'" and
    rp: "jws_payload L v' = Inr (dumps L ?RP)"
    unfolding sign_compact_def by blast
  have release: "create_release_jwt L nonce aud (JObj D) ?svc holder_key = Inr (?RP, rel)"
    by (simp add: create_release_jwt_def r1 r2 r3 walk_by_structure_def R1 rel Let_def)
  \<comment> \<open>verification\<close>
  have lP: "loads L (dumps L ?P) = Some ?P"
    using ok wP unfolding codec_ok_def by blast
  have lRP: "loads L (dumps L ?RP) = Some ?RP"
    using ok wRP unfolding codec_ok_def by blast
  have v1: "verify_sd_jwt L t issuer_public_key issuer = Inr (JObj CT, j)"
    using tw tv tp lP k1 k2 by (rule verify_sd_jwt_ok)
  have v2: "verify_sd_jwt_release L rel (Some holder_public_key) (Some aud) (Some nonce) j
              = Inr (JObj R)"
    using rw tj rv rp lRP k3 k4 by (rule verify_sd_jwt_release_ok)
  have v3: "walk_by_structure (JObj CT) (JObj R) ?fV () = Inr (JObj (select C D), ())"
    by (simp add: walk_by_structure_def R2)
  from issue release t3 rel3 v1 rw v2 v3 show ?thesis by blast
qed

text \<open>
  C1, as the code has it. Let the libraries meet their contracts, the issuer and the
  holder hold matching key pairs, the claims-field name differ from the other field
  names that verification reads, and the audience and the nonce be non-empty strings.
  For every claim tree \<open>C\<close>, every claim structure congruent with it (the default
  among them) and every tree \<open>D\<close> that chooses claims of \<open>C\<close> by key:
  the issuance of \<open>C\<close> succeeds, the release of \<open>D\<close> from the issued disclosure
  container succeeds, and the verification of the combined presentation with the
  matching issuer key, holder key, audience and nonce returns exactly the chosen part of
  \<open>C\<close>, with the values of \<open>C\<close>.
\<close>

theorem round_trip:
  assumes ok: "codec_ok L"
    and ik: "signs L issuer_key issuer_public_key"
    and hk: "signs L holder_key holder_public_key"
    and ex: "exports L holder_key holder_public_key"
    and key: "SD_CLAIMS_KEY L \<notin> {''iss'', ''sub_jwk'', ''nonce'', ''aud''}"
    and wfC: "wf_json (JObj C)" and wfD: "wf_json (JObj D)"
    and cs: "overlay cs C"
    and ch: "chosen D C"
    and aud: "aud \<noteq> []" and nonce: "nonce \<noteq> []"
  shows "\<exists>payload sd_jwt svc_payload svc rng' release_payload release.
           create_sd_jwt_and_svc L now rng (JObj C) issuer issuer_key holder_key (JObj cs)
             iat exp = Inr ((payload, sd_jwt, svc_payload, svc), rng') \<and>
           create_release_jwt L nonce aud (JObj D) svc holder_key
             = Inr (release_payload, release) \<and>
           verify L (combined sd_jwt release) issuer_public_key issuer
             (Some holder_public_key) (Some aud) (Some nonce) = Inr (JObj (select C D))"
proof -
  from presentation_stages
         [OF ok ik hk ex key wfC wfD cs ch,
          where now = now and rng = rng and issuer = issuer and iat = iat and exp = exp
            and nonce = nonce and aud = aud]
  obtain payload sd_jwt svc_payload svc rng' release_payload release CT j R where
    issue: "create_sd_jwt_and_svc L now rng (JObj C) issuer issuer_key holder_key (JObj cs)
              iat exp = Inr ((payload, sd_jwt, svc_payload, svc), rng')" and
    release: "create_release_jwt L nonce aud (JObj D) svc holder_key
                = Inr (release_payload, release)" and
    t3: "length (split_dot sd_jwt) = 3" and rel3: "length (split_dot release) = 3" and
    v1: "verify_sd_jwt L sd_jwt issuer_public_key issuer = Inr (JObj CT, j)" and
    v2: "verify_sd_jwt_release L release (Some holder_public_key) (Some aud) (Some nonce) j
           = Inr (JObj R)" and
    v3: "walk_by_structure (JObj CT) (JObj R) (required3 (check_claim L)) ()
           = Inr (JObj (select C D), ())"
    by blast
  have "verify L (combined sd_jwt release) issuer_public_key issuer (Some holder_public_key)
          (Some aud) (Some nonce) = Inr (JObj (select C D))"
    using aud nonce
    by (simp add: verify_def not_str_def split_combined [OF t3 rel3] v1 v2 v3 Let_def)
  with issue release show ?thesis by blast
qed


theorem round_trip_witness:
  "\<exists>payload sd_jwt svc_payload svc rng' release_payload release.
     create_sd_jwt_and_svc toy_lib 1000 (sconst CHR ''A'')
       (JObj [(''sub'', JStr ''abc''), (''address'', JObj [(''city'', JStr ''X'')])])
       ''iss'' (Private ''I'') (Private ''H'') (JObj []) None None
       = Inr ((payload, sd_jwt, svc_payload, svc), rng') \<and>
     create_release_jwt toy_lib ''n1'' ''v1'' (JObj [(''address'', JObj [(''city'', JNull)])])
       svc (Private ''H'') = Inr (release_payload, release) \<and>
     verify toy_lib (combined sd_jwt release) (Public ''I'') ''iss''
       (Some (Public ''H'')) (Some ''v1'') (Some ''n1'')
       = Inr (JObj [(''address'', JObj [(''city'', JStr ''X'')])])"
proof -
  have k: "SD_CLAIMS_KEY toy_lib \<notin> {''iss'', ''sub_jwk'', ''nonce'', ''aud''}"
    by (simp add: toy_lib_def)
  have e: "exports toy_lib (Private ''H'') (Public ''H'')"
    by (rule toy_exports) simp
  have c: "chosen [(''address'', JObj [(''city'', JNull)])]
             [(''sub'', JStr ''abc''), (''address'', JObj [(''city'', JStr ''X'')])]"
    by simp
  have w1: "wf_json (JObj [(''sub'', JStr ''abc''), (''address'', JObj [(''city'', JStr ''X'')])])"
    by simp
  have w2: "wf_json (JObj [(''address'', JObj [(''city'', JNull)])])"
    by simp
  from round_trip [OF toy_codec_ok toy_signs toy_signs e k w1 w2 overlay_empty c,
                   where aud = "''v1''" and nonce = "''n1''" and now = 1000
                     and rng = "sconst CHR ''A''" and issuer = "''iss''"
                     and iat = None and exp = None]
  show ?thesis by simp
qed

text \<open>
  C1, as stated, fails: with the empty string as nonce, used in the release and expected
  in the verification, the verification of the presentation does not return the chosen
  claims but fails with \<open>InvalidArguments\<close>.
\<close>

theorem round_trip_empty_nonce:
  "verify toy_lib
     (combined
        (issued_sd_jwt
           (create_sd_jwt_and_svc toy_lib 1000 (sconst CHR ''A'') (JObj [(''sub'', JStr ''abc'')])
              ''iss'' (Private ''I'') (Private ''H'') (JObj []) None None))
        (released_token
           (create_release_jwt toy_lib '''' ''v1'' (JObj [(''sub'', JNull)])
              (issued_svc
                 (create_sd_jwt_and_svc toy_lib 1000 (sconst CHR ''A'')
                    (JObj [(''sub'', JStr ''abc'')])
                    ''iss'' (Private ''I'') (Private ''H'') (JObj []) None None))
              (Private ''H''))))
     (Public ''I'') ''iss'' (Some (Public ''H'')) (Some ''v1'') (Some '''')
   = Inl InvalidArguments"
  by (simp add: verify_def not_str_def)


subsection \<open>Anonymous presentations\<close>

lemma toy_payload_guarded: "payload_guarded toy_lib"
  by (auto simp: payload_guarded_def toy_lib_def toy_deserialize_def toy_payload_def
        split: list.splits)

text \<open>
  Where the library refuses the payload of a token that has not been verified, the
  verification of a release token without a holder key never returns: a token that
  parses is not verified before its payload is read.
\<close>

lemma anonymous_release_refused:
  assumes "payload_guarded L" and "jws_deserialize L t = Inr w"
  shows "verify_sd_jwt_release L t None expected_aud expected_nonce hpp
           = Inl (LibError ''InvalidJWSOperation'')"
  using assms
  by (simp add: verify_sd_jwt_release_def check_sub_jwk_def check_release_signature_def
        payload_guarded_def)

lemma anonymous_release_fails:
  assumes "payload_guarded L"
  shows "\<exists>e. verify_sd_jwt_release L t None expected_aud expected_nonce hpp = Inl e"
proof (cases "jws_deserialize L t")
  case (Inl e)
  then show ?thesis by (simp add: verify_sd_jwt_release_def)
next
  case (Inr w)
  with assms show ?thesis by (simp add: anonymous_release_refused)
qed

lemma anonymous_verify_fails:
  assumes "payload_guarded L"
  shows "\<exists>e. verify L combined_presentation issuer_public_key expected_issuer None
                expected_aud expected_nonce = Inl e"
proof (cases "verify_sd_jwt L (join_dot (take 3 (split_dot combined_presentation)))
                issuer_public_key expected_issuer")
  case (Inl e)
  then show ?thesis by (simp add: verify_def Let_def)
next
  case (Inr r)
  obtain c j where r: "r = (c, j)" by (cases r)
  from anonymous_release_fails [OF assms] obtain e where
    "verify_sd_jwt_release L (join_dot (drop 3 (split_dot combined_presentation))) None
       expected_aud expected_nonce j = Inl e" by blast
  with Inr r show ?thesis by (simp add: verify_def Let_def)
qed

text \<open>
  C6. The code misses what the claim says. Without a holder key the signature of the
  release token is not checked and the audience and the nonce are not compared, but the
  payload is then read from a token that has only been parsed, which \<^verbatim>\<open>jwcrypto\<close>
  refuses: the verification does not succeed. The presentation below is issued for the
  claim \<open>sub\<close> and releases it with audience \<open>v1\<close> and nonce \<open>n1\<close>. Verified
  without a holder key it fails with \<^verbatim>\<open>InvalidJWSOperation\<close>; verified with the holder
  key, that audience and that nonce it returns the claim.
\<close>

theorem anonymous_presentation_refused:
  "verify toy_lib
     (combined
        (issued_sd_jwt
           (create_sd_jwt_and_svc toy_lib 1000 (sconst CHR ''A'') (JObj [(''sub'', JStr ''abc'')])
              ''iss'' (Private ''I'') (Private ''H'') (JObj []) None None))
        (released_token
           (create_release_jwt toy_lib ''n1'' ''v1'' (JObj [(''sub'', JNull)])
              (issued_svc
                 (create_sd_jwt_and_svc toy_lib 1000 (sconst CHR ''A'')
                    (JObj [(''sub'', JStr ''abc'')])
                    ''iss'' (Private ''I'') (Private ''H'') (JObj []) None None))
              (Private ''H''))))
     (Public ''I'') ''iss'' None None None
   = Inl (LibError ''InvalidJWSOperation'') \<and>
   verify toy_lib
     (combined
        (issued_sd_jwt
           (create_sd_jwt_and_svc toy_lib 1000 (sconst CHR ''A'') (JObj [(''sub'', JStr ''abc'')])
              ''iss'' (Private ''I'') (Private ''H'') (JObj []) None None))
        (released_token
           (create_release_jwt toy_lib ''n1'' ''v1'' (JObj [(''sub'', JNull)])
              (issued_svc
                 (create_sd_jwt_and_svc toy_lib 1000 (sconst CHR ''A'')
                    (JObj [(''sub'', JStr ''abc'')])
                    ''iss'' (Private ''I'') (Private ''H'') (JObj []) None None))
              (Private ''H''))))
     (Public ''I'') ''iss'' (Some (Public ''H'')) (Some ''v1'') (Some ''n1'')
   = Inr (JObj [(''sub'', JStr ''abc'')])"
proof -
  have k: "SD_CLAIMS_KEY toy_lib \<notin> {''iss'', ''sub_jwk'', ''nonce'', ''aud''}"
    by (simp add: toy_lib_def)
  have e: "exports toy_lib (Private ''H'') (Public ''H'')"
    by (rule toy_exports) simp
  have c: "chosen [(''sub'', JNull)] [(''sub'', JStr ''abc'')]" by simp
  have w1: "wf_json (JObj [(''sub'', JStr ''abc'')])" by simp
  have w2: "wf_json (JObj [(''sub'', JNull)])" by simp
  from presentation_stages
         [OF toy_codec_ok toy_signs [of "''I''"] toy_signs e k w1 w2 overlay_empty c,
          where now = 1000 and rng = "sconst CHR ''A''" and issuer = "''iss''"
            and iat = None and exp = None and nonce = "''n1''" and aud = "''v1''"]
  obtain payload sd_jwt svc_payload svc rng' release_payload release CT j R w where
    issue: "create_sd_jwt_and_svc toy_lib 1000 (sconst CHR ''A'') (JObj [(''sub'', JStr ''abc'')])
              ''iss'' (Private ''I'') (Private ''H'') (JObj []) None None
              = Inr ((payload, sd_jwt, svc_payload, svc), rng')" and
    release: "create_release_jwt toy_lib ''n1'' ''v1'' (JObj [(''sub'', JNull)]) svc
                (Private ''H'') = Inr (release_payload, release)" and
    t3: "length (split_dot sd_jwt) = 3" and rel3: "length (split_dot release) = 3" and
    v1: "verify_sd_jwt toy_lib sd_jwt (Public ''I'') ''iss'' = Inr (JObj CT, j)" and
    rw: "jws_deserialize toy_lib release = Inr w" and
    v2: "verify_sd_jwt_release toy_lib release (Some (Public ''H'')) (Some ''v1'')
           (Some ''n1'') j = Inr (JObj R)" and
    v3: "walk_by_structure (JObj CT) (JObj R) (required3 (check_claim toy_lib)) ()
           = Inr (JObj (select [(''sub'', JStr ''abc'')] [(''sub'', JNull)]), ())"
    by blast
  have a: "verify_sd_jwt_release toy_lib release None None None j
             = Inl (LibError ''InvalidJWSOperation'')"
    using toy_payload_guarded rw by (rule anonymous_release_refused)
  have anonymous: "verify toy_lib (combined sd_jwt release) (Public ''I'') ''iss'' None None None
                     = Inl (LibError ''InvalidJWSOperation'')"
    by (simp add: verify_def split_combined [OF t3 rel3] v1 a Let_def)
  have bound: "verify toy_lib (combined sd_jwt release) (Public ''I'') ''iss''
                 (Some (Public ''H'')) (Some ''v1'') (Some ''n1'')
                 = Inr (JObj [(''sub'', JStr ''abc'')])"
    by (simp add: verify_def not_str_def split_combined [OF t3 rel3] v1 v2 v3 Let_def)
  have s1: "issued_sd_jwt (Inr ((payload, sd_jwt, svc_payload, svc), rng')) = sd_jwt"
    and s2: "issued_svc (Inr ((payload, sd_jwt, svc_payload, svc), rng')) = svc"
    and s3: "released_token (Inr (release_payload, release)) = release"
    by (simp_all add: issued_sd_jwt_def issued_svc_def released_token_def)
  from anonymous bound show ?thesis
    unfolding issue s1 s2 release s3 by blast
qed


end
